theory Spec2Isabelle
  imports Complex_Main "HOL-Library.Sublist"
begin

section \<open>Python text primitives\<close>

text \<open>
  Python \<open>str\<close> values are modelled as \<open>string\<close>: a list of 8-bit characters, a
  non-ASCII code point standing as its UTF-8 bytes. The character classes below are those
  of Python on the ASCII range: \<open>str.isspace\<close> (used by \<open>strip()\<close> and by the regular
  expression class \<open>\s\<close>) holds of the codes 9 to 13, 28 to 31 and 32; \<open>\d\<close> holds of the
  ten digits; \<open>lower()\<close> maps \<open>A\<close>..\<open>Z\<close> to \<open>a\<close>..\<open>z\<close>. Characters outside ASCII are in
  none of the classes and are left alone by \<open>lower()\<close>.
\<close>

definition is_space :: "char \<Rightarrow> bool" where
  "is_space c = (let n = (of_char c :: int) in (9 \<le> n \<and> n \<le> 13) \<or> (28 \<le> n \<and> n \<le> 32))"

definition is_digit :: "char \<Rightarrow> bool" where
  "is_digit c = (let n = (of_char c :: int) in 48 \<le> n \<and> n \<le> 57)"

definition lower_char :: "char \<Rightarrow> char" where
  "lower_char c =
     (case map_of (zip ''ABCDEFGHIJKLMNOPQRSTUVWXYZ'' ''abcdefghijklmnopqrstuvwxyz'') c of
        Some l \<Rightarrow> l
      | None \<Rightarrow> c)"

definition lower :: "string \<Rightarrow> string" where
  "lower s = map lower_char s"

text \<open>\<open>text.strip()\<close>: whitespace removed at both ends.\<close>

definition strip :: "string \<Rightarrow> string" where
  "strip s = rev (dropWhile is_space (rev (dropWhile is_space s)))"

text \<open>\<open>a in b\<close> on strings: \<open>a\<close> occurs in \<open>b\<close> as a contiguous run.\<close>

fun py_in :: "string \<Rightarrow> string \<Rightarrow> bool" where
  "py_in a [] = (a = [])"
| "py_in a (c # cs) = (prefix a (c # cs) \<or> py_in a cs)"

section \<open>Normalizers (scrape_product.py)\<close>

subsection \<open>clean_number\<close>

text \<open>
  \<open>re.search(r"[<>~]?\s*([\d.]+)", text)\<close>. The matcher follows the backtracking engine:
  at each start position, from the left, it tries the optional comparison character taken
  and then skipped, the whitespace run \<open>\s*\<close> from its longest to its shortest, and the
  greedy group \<open>[\d.]+\<close>, which nothing follows. The result is group 1 of the first
  match.
\<close>

definition is_numch :: "char \<Rightarrow> bool" where
  "is_numch c = (is_digit c \<or> c = CHR ''.'')"

definition is_cmp :: "char \<Rightarrow> bool" where
  "is_cmp c = (c = CHR ''<'' \<or> c = CHR ''>'' \<or> c = CHR ''~'')"

definition num_group :: "string \<Rightarrow> string option" where
  "num_group s = (let g = takeWhile is_numch s in if g = [] then None else Some g)"

fun spaces_group :: "string \<Rightarrow> string option" where
  "spaces_group [] = num_group []"
| "spaces_group (c # cs) =
     (case (if is_space c then spaces_group cs else None) of
        Some g \<Rightarrow> Some g
      | None \<Rightarrow> num_group (c # cs))"

definition match_here :: "string \<Rightarrow> string option" where
  "match_here s =
     (case (case s of c # cs \<Rightarrow> if is_cmp c then spaces_group cs else None | [] \<Rightarrow> None) of
        Some g \<Rightarrow> Some g
      | None \<Rightarrow> spaces_group s)"

fun re_search :: "string \<Rightarrow> string option" where
  "re_search [] = match_here []"
| "re_search (c # cs) =
     (case match_here (c # cs) of Some g \<Rightarrow> Some g | None \<Rightarrow> re_search cs)"

definition clean_number :: "string \<Rightarrow> string" where
  "clean_number text =
     (if text = [] then []
      else let t = strip text in
        case re_search t of Some g \<Rightarrow> g | None \<Rightarrow> t)"

subsection \<open>clean_value\<close>

text \<open>\<open>re.sub(r'\s+', ' ', text.strip())\<close>: every maximal whitespace run becomes one space.\<close>

function collapse_spaces :: "string \<Rightarrow> string" where
  "collapse_spaces [] = []"
| "collapse_spaces (c # cs) =
     (if is_space c then CHR '' '' # collapse_spaces (dropWhile is_space cs)
      else c # collapse_spaces cs)"
  by pat_completeness auto
termination
  by (relation "measure length") (auto simp: length_dropWhile_le less_Suc_eq_le)

definition clean_value :: "string \<Rightarrow> string" where
  "clean_value text = (if text = [] then [] else collapse_spaces (strip text))"


section \<open>Dictionaries\<close>

text \<open>
  A Python \<open>dict\<close> iterates in insertion order and the resolvers below return at the first
  entry that matches, so a dictionary is an association list in insertion order.
  \<open>d[k] = v\<close> overwrites the value in place when \<open>k\<close> is present and appends the entry
  otherwise; \<open>d.update(e)\<close> and \<open>{**d, **e}\<close> do so for every entry of \<open>e\<close> in turn.
\<close>

type_synonym specs = "(string \<times> string) list"

fun dict_set :: "specs \<Rightarrow> string \<Rightarrow> string \<Rightarrow> specs" where
  "dict_set [] k v = [(k, v)]"
| "dict_set ((k', v') # d) k v =
     (if k' = k then (k, v) # d else (k', v') # dict_set d k v)"

fun dict_update :: "specs \<Rightarrow> specs \<Rightarrow> specs" where
  "dict_update d [] = d"
| "dict_update d ((k, v) # e) = dict_update (dict_set d k v) e"

definition dict_get :: "specs \<Rightarrow> string \<Rightarrow> string option" where
  "dict_get d k = map_of d k"

text \<open>
  scrape_product.py, line 319: \<open>all_specs = {**regex_specs, **general_info, **spec_table}\<close>.
\<close>

definition merge_specs :: "specs \<Rightarrow> specs \<Rightarrow> specs \<Rightarrow> specs" where
  "merge_specs regex_specs general_info spec_table =
     dict_update (dict_update (dict_update [] regex_specs) general_info) spec_table"

text \<open>
  scrape_battery.py, lines 84 to 86: \<open>all_specs = {}; all_specs.update(general_info);
  all_specs.update(spec_table)\<close>.
\<close>

definition battery_merge_specs :: "specs \<Rightarrow> specs \<Rightarrow> specs" where
  "battery_merge_specs general_info spec_table =
     dict_update (dict_update [] general_info) spec_table"

section \<open>The generic alias resolver of the motor engine (scrape_product.py, get_spec)\<close>

text \<open>The first loop of an alias: the first entry whose key equals the alias, both
  lower-cased, and whose value is not empty.\<close>

fun find_exact :: "specs \<Rightarrow> string \<Rightarrow> string option" where
  "find_exact [] key_lower = None"
| "find_exact ((spec_key, value) # rest) key_lower =
     (if key_lower = lower spec_key \<and> value \<noteq> [] then Some value
      else find_exact rest key_lower)"

text \<open>The second loop of an alias: containment in either direction.\<close>

fun find_substring :: "specs \<Rightarrow> string \<Rightarrow> string option" where
  "find_substring [] key_lower = None"
| "find_substring ((spec_key, value) # rest) key_lower =
     (if (py_in key_lower (lower spec_key) \<or> py_in (lower spec_key) key_lower) \<and> value \<noteq> []
      then Some value
      else find_substring rest key_lower)"

definition cleaned :: "bool \<Rightarrow> string \<Rightarrow> string" where
  "cleaned clean value = (if clean then clean_number value else clean_value value)"

fun get_spec :: "specs \<Rightarrow> string list \<Rightarrow> bool \<Rightarrow> bool \<Rightarrow> string" where
  "get_spec all_specs [] clean exact = []"
| "get_spec all_specs (key # keys) clean exact =
     (case find_exact all_specs (lower key) of
        Some value \<Rightarrow> cleaned clean value
      | None \<Rightarrow>
         (case (if \<not> exact then find_substring all_specs (lower key) else None) of
            Some value \<Rightarrow> cleaned clean value
          | None \<Rightarrow> get_spec all_specs keys clean exact))"

section \<open>Python floats\<close>

text \<open>
  A Python \<open>float\<close> is an IEEE 754 binary64 value. A finite one is \<open>Finite s m e\<close>, of
  value \<open>(-1)^s * m * 2^e\<close>, kept in the format's canonical form: \<open>2^52 \<le> m < 2^53\<close>
  and \<open>-1074 \<le> e \<le> 971\<close> for a normal number, \<open>m < 2^52\<close> and \<open>e = -1074\<close> for a
  subnormal one or a zero. \<open>float(text)\<close>, \<open>*\<close> and \<open>/\<close> return the exact result rounded to
  the nearest such value, ties to the even mantissa, and the infinity past the largest one;
  \<open>fl_round s a b\<close> is that rounding of the ratio \<open>a / b\<close>, computed on integers.
\<close>

datatype py_error = ValueError | OverflowError | ZeroDivisionError

datatype pyfloat = Finite bool int int | Infinity bool | NaN

text \<open>The number of digits of \<open>a\<close> in a base: for \<open>a > 0\<close>, the \<open>n\<close> with
  \<open>base^(n-1) \<le> a < base^n\<close>.\<close>

function ndigits :: "int \<Rightarrow> int \<Rightarrow> int" where
  "ndigits base a = (if 0 < a \<and> 1 < base then ndigits base (a div base) + 1 else 0)"
  by pat_completeness auto
termination
  by (relation "measure (\<lambda>(b, a). nat a)") (auto intro!: int_div_less_self)

declare ndigits.simps [simp del]

text \<open>For \<open>a, b > 0\<close>: the \<open>e\<close> with \<open>base^e \<le> a / b < base^(e+1)\<close>.\<close>

definition floor_log_ratio :: "int \<Rightarrow> int \<Rightarrow> int \<Rightarrow> int" where
  "floor_log_ratio base a b =
     (let e = ndigits base a - ndigits base b in
      if (if 0 \<le> e then b * base ^ nat e \<le> a else b \<le> a * base ^ nat (- e)) then e
      else e - 1)"

text \<open>\<open>a / b\<close> rounded to the nearest integer, a tie to the even one.\<close>

definition round_ratio :: "int \<Rightarrow> int \<Rightarrow> int" where
  "round_ratio a b =
     (let q = a div b; r = a mod b in
      if 2 * r < b then q else if b < 2 * r then q + 1 else if even q then q else q + 1)"

definition fl_round :: "bool \<Rightarrow> int \<Rightarrow> int \<Rightarrow> pyfloat" where
  "fl_round s a b =
     (if a = 0 then Finite s 0 (- 1074)
      else
        let e = max (floor_log_ratio 2 a b - 52) (- 1074);
            m = (if 0 \<le> e then round_ratio a (b * 2 ^ nat e)
                 else round_ratio (a * 2 ^ nat (- e)) b);
            m' = (if m = 2 ^ 53 then 2 ^ 52 else m);
            e' = (if m = 2 ^ 53 then e + 1 else e)
        in if 971 < e' then Infinity s else Finite s m' e')"

text \<open>The float of a Python \<open>int\<close> literal (here 1, 100 and 1000).\<close>

definition float_of_int :: "int \<Rightarrow> pyfloat" where
  "float_of_int n = fl_round (n < 0) \<bar>n\<bar> 1"

definition fl_mul :: "pyfloat \<Rightarrow> pyfloat \<Rightarrow> pyfloat" where
  "fl_mul x y =
     (case (x, y) of
        (Finite s m e, Finite t n f) \<Rightarrow>
          (if 0 \<le> e + f then fl_round (s \<noteq> t) (m * n * 2 ^ nat (e + f)) 1
           else fl_round (s \<noteq> t) (m * n) (2 ^ nat (- (e + f))))
      | (Finite s m e, Infinity t) \<Rightarrow> (if m = 0 then NaN else Infinity (s \<noteq> t))
      | (Infinity s, Finite t n f) \<Rightarrow> (if n = 0 then NaN else Infinity (s \<noteq> t))
      | (Infinity s, Infinity t) \<Rightarrow> Infinity (s \<noteq> t)
      | _ \<Rightarrow> NaN)"

text \<open>\<open>x / y\<close>: Python raises ZeroDivisionError on a zero divisor, whatever \<open>x\<close> is.\<close>

definition fl_truediv :: "pyfloat \<Rightarrow> pyfloat \<Rightarrow> py_error + pyfloat" where
  "fl_truediv x y =
     (case y of
        Finite t n f \<Rightarrow>
          (if n = 0 then Inl ZeroDivisionError
           else case x of
              Finite s m e \<Rightarrow>
                Inr (if 0 \<le> e - f then fl_round (s \<noteq> t) (m * 2 ^ nat (e - f)) n
                     else fl_round (s \<noteq> t) m (n * 2 ^ nat (f - e)))
            | Infinity s \<Rightarrow> Inr (Infinity (s \<noteq> t))
            | NaN \<Rightarrow> Inr NaN)
      | Infinity t \<Rightarrow>
          (case x of Finite s m e \<Rightarrow> Inr (Finite (s \<noteq> t) 0 (- 1074)) | _ \<Rightarrow> Inr NaN)
      | NaN \<Rightarrow> Inr NaN)"

definition signed :: "bool \<Rightarrow> int \<Rightarrow> int" where
  "signed s m = (if s then - m else m)"

text \<open>\<open>x < y\<close>: false whenever an operand is a NaN.\<close>

definition fl_less :: "pyfloat \<Rightarrow> pyfloat \<Rightarrow> bool" where
  "fl_less x y =
     (case (x, y) of
        (Finite s m e, Finite t n f) \<Rightarrow>
          signed s m * 2 ^ nat (e - min e f) < signed t n * 2 ^ nat (f - min e f)
      | (Finite s m e, Infinity t) \<Rightarrow> \<not> t
      | (Infinity s, Finite t n f) \<Rightarrow> s
      | (Infinity s, Infinity t) \<Rightarrow> s \<and> \<not> t
      | _ \<Rightarrow> False)"

text \<open>\<open>int(x)\<close>: truncation towards zero; OverflowError on an infinity, ValueError on a
  NaN.\<close>

definition py_int :: "pyfloat \<Rightarrow> py_error + int" where
  "py_int x =
     (case x of
        Finite s m e \<Rightarrow> Inr (signed s (if 0 \<le> e then m * 2 ^ nat e else m div 2 ^ nat (- e)))
      | Infinity s \<Rightarrow> Inl OverflowError
      | NaN \<Rightarrow> Inl ValueError)"

subsection \<open>str of an int\<close>

function nat_digits :: "int \<Rightarrow> string" where
  "nat_digits n =
     (if n < 10 then [''0123456789'' ! nat n]
      else nat_digits (n div 10) @ [''0123456789'' ! nat (n mod 10)])"
  by pat_completeness auto
termination
  by (relation "measure nat") (auto intro!: int_div_less_self)

declare nat_digits.simps [simp del]

definition str_int :: "int \<Rightarrow> string" where
  "str_int n = (if n < 0 then CHR ''-'' # nat_digits (- n) else nat_digits n)"

subsection \<open>float of a string\<close>

text \<open>
  \<open>float(text)\<close> strips whitespace and reads an optional sign and then \<open>inf\<close>, \<open>infinity\<close>
  or \<open>nan\<close> in any case, or a number: \<open>[digitpart] "." digitpart | digitpart ["."]\<close> with
  an optional exponent \<open>("e" | "E") ["+" | "-"] digitpart\<close>, a digitpart being digits
  with single underscores between them. Anything else is a ValueError. The value is the
  decimal number correctly rounded.
\<close>

fun is_digitpart_tail :: "string \<Rightarrow> bool" where
  "is_digitpart_tail [] = True"
| "is_digitpart_tail (c # cs) =
     (if is_digit c then is_digitpart_tail cs
      else c = CHR ''_'' \<and> (case cs of d # ds \<Rightarrow> is_digit d \<and> is_digitpart_tail ds | [] \<Rightarrow> False))"

definition is_digitpart :: "string \<Rightarrow> bool" where
  "is_digitpart s = (case s of c # cs \<Rightarrow> is_digit c \<and> is_digitpart_tail cs | [] \<Rightarrow> False)"

definition digits_val :: "string \<Rightarrow> int" where
  "digits_val s = foldl (\<lambda>acc c. acc * 10 + (of_char c - 48)) 0 (filter is_digit s)"

definition split_sign :: "string \<Rightarrow> bool \<times> string" where
  "split_sign s =
     (case s of
        c # r \<Rightarrow> if c = CHR ''-'' then (True, r) else if c = CHR ''+'' then (False, r) else (False, s)
      | [] \<Rightarrow> (False, []))"

definition is_e :: "char \<Rightarrow> bool" where
  "is_e c = (c = CHR ''e'' \<or> c = CHR ''E'')"

text \<open>A number as \<open>(n, k)\<close>, of value \<open>n * 10^k\<close>.\<close>

definition parse_number :: "string \<Rightarrow> (int \<times> int) option" where
  "parse_number s =
     (let mant = takeWhile (\<lambda>c. \<not> is_e c) s;
          after = dropWhile (\<lambda>c. \<not> is_e c) s;
          ip = takeWhile (\<lambda>c. c \<noteq> CHR ''.'') mant;
          dot = dropWhile (\<lambda>c. c \<noteq> CHR ''.'') mant;
          fp = tl dot;
          mant_ok =
            (if dot = [] then is_digitpart ip
             else (ip = [] \<or> is_digitpart ip) \<and> (fp = [] \<or> is_digitpart fp) \<and> (ip @ fp \<noteq> []));
          ex =
            (if after = [] then Some 0
             else let (neg, ds) = split_sign (tl after) in
               if is_digitpart ds then Some (signed neg (digits_val ds)) else None)
      in if mant_ok then
           (case ex of
              Some x \<Rightarrow> Some (digits_val (ip @ fp), x - int (length (filter is_digit fp)))
            | None \<Rightarrow> None)
         else None)"

definition py_float :: "string \<Rightarrow> py_error + pyfloat" where
  "py_float text =
     (let (neg, body) = split_sign (strip text) in
      if lower body = ''inf'' \<or> lower body = ''infinity'' then Inr (Infinity neg)
      else if lower body = ''nan'' then Inr NaN
      else
        case parse_number body of
          None \<Rightarrow> Inl ValueError
        | Some (n, k) \<Rightarrow>
            Inr (if 0 \<le> k then fl_round neg (n * 10 ^ nat k) 1 else fl_round neg n (10 ^ nat (- k))))"

subsection \<open>str of a float\<close>

text \<open>
  \<open>str(x)\<close> is \<open>repr(x)\<close>: the shortest decimal digit string that \<open>float\<close> reads back as
  \<open>x\<close> (the nearest to \<open>x\<close> among those of that length, the one with an even last digit
  when two are as near; 17 digits always suffice), written
  in positional notation when the decimal point falls within \<open>-4 < decpt \<le> 16\<close> and in
  exponent notation otherwise.
\<close>

text \<open>\<open>d * 10^k\<close> rounded.\<close>

definition fl_of_decimal :: "bool \<Rightarrow> int \<Rightarrow> int \<Rightarrow> pyfloat" where
  "fl_of_decimal s d k = (if 0 \<le> k then fl_round s (d * 10 ^ nat k) 1 else fl_round s d (10 ^ nat (- k)))"

text \<open>The candidates with \<open>n\<close> digits for \<open>a / b\<close>, whose decimal point is at \<open>p\<close>: the two
  neighbours of \<open>a / b\<close> on the grid of step \<open>10^(p - n)\<close>, the nearer first; when \<open>a / b\<close>
  is halfway between them, the even one first.\<close>

definition candidates :: "int \<Rightarrow> int \<Rightarrow> int \<Rightarrow> int \<Rightarrow> (int \<times> int) list" where
  "candidates a b p n =
     (let k = p - n;
          a' = (if 0 \<le> k then a else a * 10 ^ nat (- k));
          b' = (if 0 \<le> k then b * 10 ^ nat k else b);
          lo = a' div b'
      in if 2 * (a' mod b') < b' \<or> (2 * (a' mod b') = b' \<and> even lo)
         then [(lo, k), (lo + 1, k)] else [(lo + 1, k), (lo, k)])"

text \<open>The lengths 1 to 16 in turn; with 17 digits the nearer neighbour always reads back.\<close>

fun search_shortest :: "int \<Rightarrow> int \<Rightarrow> int \<Rightarrow> pyfloat \<Rightarrow> int list \<Rightarrow> int \<times> int" where
  "search_shortest a b p x [] = hd (candidates a b p 17)"
| "search_shortest a b p x (n # ns) =
     (case find (\<lambda>(d, k). fl_of_decimal False d k = x) (candidates a b p n) of
        Some r \<Rightarrow> r
      | None \<Rightarrow> search_shortest a b p x ns)"

definition shortest_decimal :: "int \<Rightarrow> int \<Rightarrow> int \<times> int" where
  "shortest_decimal m e =
     (let a = (if 0 \<le> e then m * 2 ^ nat e else m);
          b = (if 0 \<le> e then 1 else 2 ^ nat (- e))
      in search_shortest a b (floor_log_ratio 10 a b + 1) (Finite False m e)
           [1, 2, 3, 4, 5, 6, 7, 8, 9, 10, 11, 12, 13, 14, 15, 16])"

function strip_zeros :: "int \<times> int \<Rightarrow> int \<times> int" where
  "strip_zeros (d, k) = (if d \<noteq> 0 \<and> d mod 10 = 0 then strip_zeros (d div 10, k + 1) else (d, k))"
  by pat_completeness auto
termination
  by (relation "measure (\<lambda>(d, k). nat \<bar>d\<bar>)") auto

declare strip_zeros.simps [simp del]

definition pad2 :: "string \<Rightarrow> string" where
  "pad2 s = (if length s < 2 then CHR ''0'' # s else s)"

text \<open>The digits \<open>ds\<close> with the decimal point after the first \<open>decpt\<close> of them.\<close>

definition format_float :: "string \<Rightarrow> int \<Rightarrow> string" where
  "format_float ds decpt =
     (if - 4 < decpt \<and> decpt \<le> 16 then
        (if decpt \<le> 0 then ''0.'' @ replicate (nat (- decpt)) CHR ''0'' @ ds
         else if int (length ds) \<le> decpt then
           ds @ replicate (nat (decpt - int (length ds))) CHR ''0'' @ ''.0''
         else take (nat decpt) ds @ ''.'' @ drop (nat decpt) ds)
      else
        take 1 ds @ (if 1 < length ds then ''.'' @ drop 1 ds else []) @ ''e'' @
        (if decpt - 1 < 0 then ''-'' else ''+'') @ pad2 (nat_digits \<bar>decpt - 1\<bar>))"

definition format_decimal :: "int \<times> int \<Rightarrow> string" where
  "format_decimal dk = format_float (nat_digits (fst dk)) (snd dk + int (length (nat_digits (fst dk))))"

fun float_repr :: "pyfloat \<Rightarrow> string" where
  "float_repr NaN = ''nan''"
| "float_repr (Infinity s) = (if s then ''-inf'' else ''inf'')"
| "float_repr (Finite s m e) =
     (if s then ''-'' else []) @
     (if m = 0 then ''0.0'' else format_decimal (strip_zeros (shortest_decimal m e)))"

section \<open>Unit-aware resolvers of the motor engine (scrape_product.py)\<close>

text \<open>
  The block \<open>try: return str(float(num) / 1000)\<close>, \<open>except ValueError: pass\<close> shared by
  get_no_load_current and get_weight: \<open>None\<close> when the ValueError is caught and the loop
  goes on, \<open>Some\<close> of the returned text, or of an exception that is not caught.
\<close>

definition try_div_1000 :: "string \<Rightarrow> (py_error + string) option" where
  "try_div_1000 num =
     (case py_float num of
        Inl ValueError \<Rightarrow> None
      | Inl err \<Rightarrow> Some (Inl err)
      | Inr x \<Rightarrow>
          (case fl_truediv x (float_of_int 1000) of
             Inl ValueError \<Rightarrow> None
           | Inl err \<Rightarrow> Some (Inl err)
           | Inr y \<Rightarrow> Some (Inr (float_repr y))))"

fun get_no_load_current :: "specs \<Rightarrow> py_error + string" where
  "get_no_load_current [] = Inr []"
| "get_no_load_current ((spec_key, value) # rest) =
     (if py_in ''no'' (lower spec_key) \<and> py_in ''load'' (lower spec_key)
         \<and> py_in ''current'' (lower spec_key) then
        (if py_in ''ma'' (lower spec_key) \<or> py_in ''ma'' (lower value) then
           (if clean_number value \<noteq> [] then
              (case try_div_1000 (clean_number value) of
                 Some r \<Rightarrow> r
               | None \<Rightarrow> get_no_load_current rest)
            else get_no_load_current rest)
         else Inr (clean_number value))
      else get_no_load_current rest)"

definition get_efficiency :: "specs \<Rightarrow> py_error + string" where
  "get_efficiency all_specs =
     (let val = get_spec all_specs [''efficiency''] True False in
      if val \<noteq> [] then
        (case py_float val of
           Inl ValueError \<Rightarrow> Inr val
         | Inl err \<Rightarrow> Inl err
         | Inr num \<Rightarrow>
             if fl_less num (float_of_int 1) then
               (case py_int (fl_mul num (float_of_int 100)) of
                  Inl ValueError \<Rightarrow> Inr val
                | Inl err \<Rightarrow> Inl err
                | Inr n \<Rightarrow> Inr (str_int n))
             else Inr val)
      else Inr [])"

text \<open>The loop of get_weight: \<open>None\<close> when it ends without a return.\<close>

fun get_weight_loop :: "specs \<Rightarrow> (py_error + string) option" where
  "get_weight_loop [] = None"
| "get_weight_loop ((spec_key, value) # rest) =
     (if py_in ''weight'' (lower spec_key) \<and> \<not> py_in ''shipping'' (lower spec_key) then
        (if py_in ''(kg)'' (lower spec_key) \<or> py_in ''kg'' (lower value) then
           Some (Inr (clean_number value))
         else if py_in ''(g)'' (lower spec_key) \<and> clean_number value \<noteq> [] then
           (case try_div_1000 (clean_number value) of
              Some r \<Rightarrow> Some r
            | None \<Rightarrow> get_weight_loop rest)
         else get_weight_loop rest)
      else get_weight_loop rest)"

definition get_weight :: "specs \<Rightarrow> py_error + string" where
  "get_weight all_specs =
     (case get_weight_loop all_specs of
        Some r \<Rightarrow> r
      | None \<Rightarrow> Inr (get_spec all_specs [''weight (kg)'', ''weight:'', ''weight_kg''] True True))"

section \<open>scrape_product\<close>

text \<open>
  The parsed document is an external collaborator: a page is what the extractors return
  on it (extract_product_name, extract_stock_status, extract_price, extract_general_info,
  extract_specification_table; extract_via_regex for the motor engine only). The argument
  \<open>fetched\<close> is \<open>None\<close> when fetch_page returned no text.
\<close>

record page =
  product_name :: string
  stock_status :: string
  price :: string
  general_info :: specs
  spec_table :: specs
  regex_specs :: specs

definition rstrip_slash :: "string \<Rightarrow> string" where
  "rstrip_slash url = rev (dropWhile (\<lambda>c. c = CHR ''/'') (rev url))"

definition CSV_COLUMNS :: "string list" where
  "CSV_COLUMNS =
     [''Product Name'', ''URL'', ''Stock Status'', ''Price (INR)'', ''Voltage (V)'',
      ''Power (W)'', ''Rated Current (A)'', ''No Load Current (A)'', ''Rated Torque (kg-cm)'',
      ''Stall Torque (kg-cm)'', ''RPM'', ''Efficiency (%)'', ''Weight (kg)'',
      ''Shipping Weight (kg)'', ''Shipping Dimensions (cm)'', ''Shaft Diameter (mm)'',
      ''Motor Type'', ''Model No.'', ''Gearbox'', ''Dimensions'', ''Cable Length (cm)'']"

text \<open>The dict literal \<open>result\<close>, its values evaluated in the order written: the first
  exception raised among them leaves the function.\<close>

definition motor_record ::
  "string \<Rightarrow> page \<Rightarrow> specs \<Rightarrow> string \<Rightarrow> string \<Rightarrow> string \<Rightarrow> (string \<times> string) list" where
  "motor_record clean_url p all_specs no_load efficiency weight =
     [(''Product Name'', product_name p),
      (''URL'', clean_url),
      (''Stock Status'', stock_status p),
      (''Price (INR)'', price p),
      (''Voltage (V)'',
         get_spec all_specs [''rated voltage'', ''operating voltage'', ''voltage'', ''vdc''] True False),
      (''Power (W)'', get_spec all_specs [''operating power'', ''rated power'', ''power''] True False),
      (''Rated Current (A)'',
         get_spec all_specs [''rated current (a)'', ''rated current'', ''rate current''] True False),
      (''No Load Current (A)'', no_load),
      (''Rated Torque (kg-cm)'', get_spec all_specs [''rated torque'', ''rate torque''] True False),
      (''Stall Torque (kg-cm)'', get_spec all_specs [''stall torque''] True False),
      (''RPM'',
         get_spec all_specs [''rated speed (rpm)'', ''rated speed'', ''speed (rpm)'', ''rpm''] True False),
      (''Efficiency (%)'', efficiency),
      (''Weight (kg)'', weight),
      (''Shipping Weight (kg)'',
         get_spec all_specs [''shipping weight'', ''shipping_weight''] False False),
      (''Shipping Dimensions (cm)'',
         get_spec all_specs [''shipping dimensions'', ''shipping_dimensions''] False False),
      (''Shaft Diameter (mm)'', get_spec all_specs [''shaft diameter'', ''shaft''] True False),
      (''Motor Type'',
         get_spec all_specs [''motor type'', ''item type'', ''brushed'', ''brushless''] False False),
      (''Model No.'', get_spec all_specs [''model'', ''model no''] False False),
      (''Gearbox'', get_spec all_specs [''gearbox'', ''gear box'', ''gear''] False False),
      (''Dimensions'', get_spec all_specs [''dimensions'', ''dimension'', ''lxd''] False False),
      (''Cable Length (cm)'', get_spec all_specs [''cable length'', ''cable''] True False)]"

definition scrape_product :: "string \<Rightarrow> page option \<Rightarrow> py_error + (string \<times> string) list" where
  "scrape_product url fetched =
     (case fetched of
        None \<Rightarrow> Inr []
      | Some p \<Rightarrow>
          (let all_specs = merge_specs (regex_specs p) (general_info p) (spec_table p) in
           case get_no_load_current all_specs of
             Inl err \<Rightarrow> Inl err
           | Inr no_load \<Rightarrow>
               (case get_efficiency all_specs of
                  Inl err \<Rightarrow> Inl err
                | Inr efficiency \<Rightarrow>
                    (case get_weight all_specs of
                       Inl err \<Rightarrow> Inl err
                     | Inr weight \<Rightarrow>
                         Inr (motor_record (rstrip_slash url) p all_specs no_load efficiency weight)))))"

text \<open>
  scrape_motors.py, scrape_product_safe (the sequential loop of main does the same):
  \<open>data = scrape_product(url)\<close>; the record is kept \<open>if data and data.get("Product
  Name")\<close>; any exception, and a record that is not kept, give \<open>None\<close>.
\<close>

definition scrape_product_safe :: "string \<Rightarrow> page option \<Rightarrow> (string \<times> string) list option" where
  "scrape_product_safe url fetched =
     (case scrape_product url fetched of
        Inl err \<Rightarrow> None
      | Inr data \<Rightarrow>
          (if data \<noteq> [] \<and> dict_get data ''Product Name'' \<noteq> None
              \<and> dict_get data ''Product Name'' \<noteq> Some []
           then Some data else None))"

section \<open>The battery engine (scrape_battery.py)\<close>

text \<open>get_spec of scrape_battery.py: one loop per alias, the mode deciding the test.\<close>

fun battery_find :: "specs \<Rightarrow> string \<Rightarrow> bool \<Rightarrow> string option" where
  "battery_find [] key_lower exact = None"
| "battery_find ((spec_key, value) # rest) key_lower exact =
     (if exact \<and> spec_key = key_lower then Some value
      else if \<not> exact \<and> py_in key_lower spec_key then Some value
      else battery_find rest key_lower exact)"

fun battery_get_spec :: "specs \<Rightarrow> string list \<Rightarrow> bool \<Rightarrow> bool \<Rightarrow> string" where
  "battery_get_spec all_specs [] clean exact = []"
| "battery_get_spec all_specs (key # keys) clean exact =
     (case battery_find all_specs (lower key) exact of
        Some value \<Rightarrow> cleaned clean value
      | None \<Rightarrow> battery_get_spec all_specs keys clean exact)"

fun battery_get_weight :: "specs \<Rightarrow> string" where
  "battery_get_weight [] = []"
| "battery_get_weight ((spec_key, value) # rest) =
     (if py_in ''weight'' (lower spec_key) \<and> \<not> py_in ''shipping'' (lower spec_key)
         \<and> clean_number value \<noteq> []
      then clean_number value
      else battery_get_weight rest)"

fun get_dimension :: "specs \<Rightarrow> string \<Rightarrow> string" where
  "get_dimension [] dim_type = []"
| "get_dimension ((spec_key, value) # rest) dim_type =
     (if py_in dim_type (lower spec_key) then clean_number value
      else get_dimension rest dim_type)"

text \<open>\<open>a or b\<close> on strings.\<close>

definition py_or :: "string \<Rightarrow> string \<Rightarrow> string" where
  "py_or a b = (if a \<noteq> [] then a else b)"

definition axis_words :: "string list" where
  "axis_words = [''thickness'', ''breadth'', ''length'', ''width'', ''height'']"

text \<open>The loop of get_full_dimensions: \<open>None\<close> when it ends without a return.\<close>

fun full_dimensions_loop :: "specs \<Rightarrow> string option" where
  "full_dimensions_loop [] = None"
| "full_dimensions_loop ((spec_key, value) # rest) =
     (if py_in ''dimension'' (lower spec_key) \<and> \<not> py_in ''shipping'' (lower spec_key) then
        (if list_ex (\<lambda>x. py_in x (lower spec_key)) axis_words then full_dimensions_loop rest
         else Some (clean_value value))
      else full_dimensions_loop rest)"

text \<open>The multiplication sign of the f-string, U+00D7, as its two UTF-8 bytes.\<close>

definition times_sign :: "string" where
  "times_sign = [CHR 0xC3, CHR 0x97]"

definition get_full_dimensions :: "specs \<Rightarrow> string" where
  "get_full_dimensions all_specs =
     (case full_dimensions_loop all_specs of
        Some v \<Rightarrow> v
      | None \<Rightarrow>
          (let t = get_dimension all_specs ''thickness'';
               b = py_or (get_dimension all_specs ''breadth'') (get_dimension all_specs ''width'');
               l = get_dimension all_specs ''length''
           in if t \<noteq> [] \<and> b \<noteq> [] \<and> l \<noteq> [] then
                t @ '' '' @ times_sign @ '' '' @ b @ '' '' @ times_sign @ '' '' @ l @ '' mm''
              else []))"

definition battery_CSV_COLUMNS :: "string list" where
  "battery_CSV_COLUMNS =
     [''Product Name'', ''URL'', ''Stock Status'', ''Price (INR)'', ''Model No.'',
      ''Nominal Voltage (V)'', ''Capacity (mAh)'', ''Continuous Charge Current'',
      ''Continuous Discharge Current'', ''Max Charge Rate'', ''Max Discharge Rate'',
      ''Connector Type'', ''Life Cycles'', ''Application'', ''Thickness (mm)'', ''Breadth (mm)'',
      ''Length (mm)'', ''Dimensions'', ''Weight (g)'', ''Shipping Weight (kg)'',
      ''Shipping Dimensions (cm)'', ''Additional Specs'']"

definition battery_record :: "string \<Rightarrow> page \<Rightarrow> specs \<Rightarrow> (string \<times> string) list" where
  "battery_record clean_url p all_specs =
     [(''Product Name'', product_name p),
      (''URL'', clean_url),
      (''Stock Status'', stock_status p),
      (''Price (INR)'', price p),
      (''Model No.'', battery_get_spec all_specs [''model no'', ''model''] False False),
      (''Nominal Voltage (V)'', battery_get_spec all_specs [''nominal voltage'', ''voltage''] True False),
      (''Capacity (mAh)'', battery_get_spec all_specs [''nominal capacity'', ''capacity''] True False),
      (''Continuous Charge Current'',
         battery_get_spec all_specs [''continuous charge current'', ''charge current''] False False),
      (''Continuous Discharge Current'',
         battery_get_spec all_specs
           [''continuous dischg'', ''continuous discharge'', ''discharge current''] False False),
      (''Max Charge Rate'',
         battery_get_spec all_specs [''max. charge rate'', ''max charge rate'', ''max. charge''] False False),
      (''Max Discharge Rate'',
         battery_get_spec all_specs [''max discharge rate'', ''max. discharge'', ''max dischg''] False False),
      (''Connector Type'', battery_get_spec all_specs [''connector type'', ''connector''] False False),
      (''Life Cycles'', battery_get_spec all_specs [''life cycle'', ''cycle''] False False),
      (''Application'', battery_get_spec all_specs [''application''] False False),
      (''Thickness (mm)'', get_dimension all_specs ''thickness''),
      (''Breadth (mm)'',
         py_or (get_dimension all_specs ''breadth'') (get_dimension all_specs ''width'')),
      (''Length (mm)'', get_dimension all_specs ''length''),
      (''Dimensions'', get_full_dimensions all_specs),
      (''Weight (g)'', battery_get_weight all_specs),
      (''Shipping Weight (kg)'', battery_get_spec all_specs [''shipping weight''] False False),
      (''Shipping Dimensions (cm)'', battery_get_spec all_specs [''shipping dimensions''] False False),
      (''Additional Specs'', battery_get_spec all_specs [''additional spec''] False False)]"

text \<open>\<open>None\<close> is the \<open>None\<close> of the source: no text fetched, or no product name.\<close>

definition scrape_battery :: "string \<Rightarrow> page option \<Rightarrow> (string \<times> string) list option" where
  "scrape_battery url fetched =
     (case fetched of
        None \<Rightarrow> None
      | Some p \<Rightarrow>
          (if product_name p = [] then None
           else Some (battery_record (rstrip_slash url) p
                        (battery_merge_specs (general_info p) (spec_table p)))))"

section \<open>The spec's wording, for comparison with the code\<close>

text \<open>
  The definitions of this section follow the sentences of the spec, not the source; each
  is compared below with the function of the source it describes.
\<close>

text \<open>
  Spec 4.5, numeric cleaner: "the first run matching an optional comparison prefix followed
  by a decimal number", the numeric portion returned. A decimal number is read as digits,
  optionally followed by a point and more digits.
\<close>

definition decimal_at :: "string \<Rightarrow> string" where
  "decimal_at s =
     (let ip = takeWhile is_digit s; r = dropWhile is_digit s in
      if ip \<noteq> [] \<and> r \<noteq> [] \<and> hd r = CHR ''.'' \<and> takeWhile is_digit (tl r) \<noteq> []
      then ip @ ''.'' @ takeWhile is_digit (tl r)
      else ip)"

fun spec_first_decimal :: "string \<Rightarrow> string option" where
  "spec_first_decimal [] = None"
| "spec_first_decimal (c # cs) =
     (if decimal_at (c # cs) \<noteq> [] then Some (decimal_at (c # cs)) else spec_first_decimal cs)"

definition spec_clean_number :: "string \<Rightarrow> string" where
  "spec_clean_number text =
     (case spec_first_decimal (strip text) of Some g \<Rightarrow> g | None \<Rightarrow> strip text)"

text \<open>
  Spec 4.4, field resolver: for each alias in order, an exact case-insensitive match
  against every key; failing that, and unless the field requires exact matching, a
  substring match in either direction; the first alias with any match wins, and no match
  gives the empty string.
\<close>

fun spec_find_exact :: "specs \<Rightarrow> string \<Rightarrow> string option" where
  "spec_find_exact [] alias = None"
| "spec_find_exact ((k, v) # rest) alias =
     (if lower alias = lower k then Some v else spec_find_exact rest alias)"

fun spec_find_substring :: "specs \<Rightarrow> string \<Rightarrow> string option" where
  "spec_find_substring [] alias = None"
| "spec_find_substring ((k, v) # rest) alias =
     (if py_in (lower alias) (lower k) \<or> py_in (lower k) (lower alias) then Some v
      else spec_find_substring rest alias)"

fun spec_resolve :: "specs \<Rightarrow> string list \<Rightarrow> bool \<Rightarrow> bool \<Rightarrow> string" where
  "spec_resolve m [] clean exact = []"
| "spec_resolve m (alias # aliases) clean exact =
     (case spec_find_exact m alias of
        Some v \<Rightarrow> cleaned clean v
      | None \<Rightarrow>
         (case (if exact then None else spec_find_substring m alias) of
            Some v \<Rightarrow> cleaned clean v
          | None \<Rightarrow> spec_resolve m aliases clean exact))"

text \<open>
  Spec 4.4, ratio/percentage fields: "if the resolved numeric value is less than 1, treat
  it as a fraction and multiply by 100, rounding to the nearest integer; otherwise report
  the value unchanged". The value \<open>n * 10^k\<close> is the decimal number the text denotes.
\<close>

definition spec_efficiency :: "string \<Rightarrow> string" where
  "spec_efficiency val =
     (case parse_number val of
        None \<Rightarrow> val
      | Some (n, k) \<Rightarrow>
          if 0 \<le> k then (if n * 10 ^ nat k < 1 then str_int (100 * n * 10 ^ nat k) else val)
          else (if n < 10 ^ nat (- k) then str_int (round_ratio (100 * n) (10 ^ nat (- k))) else val))"

section \<open>Notions the properties are stated with\<close>

text \<open>The entries of a dictionary whose value is not the empty string.\<close>

definition nonempty_entries :: "specs \<Rightarrow> specs" where
  "nonempty_entries m = filter (\<lambda>kv. snd kv \<noteq> []) m"

text \<open>An entry matches an alias exactly, or by containment in either direction; in both
  cases its value is not empty.\<close>

definition exact_hit :: "string \<Rightarrow> string \<times> string \<Rightarrow> bool" where
  "exact_hit alias kv = (lower alias = lower (fst kv) \<and> snd kv \<noteq> [])"

definition substring_hit :: "string \<Rightarrow> string \<times> string \<Rightarrow> bool" where
  "substring_hit alias kv =
     ((py_in (lower alias) (lower (fst kv)) \<or> py_in (lower (fst kv)) (lower alias))
      \<and> snd kv \<noteq> [])"

text \<open>The raw value an alias resolves to: that of the first exact hit in the order of
  the dictionary; with none, and unless exact matching is required, that of the first
  substring hit.\<close>

definition alias_value :: "specs \<Rightarrow> bool \<Rightarrow> string \<Rightarrow> string option" where
  "alias_value m exact alias =
     (case find (exact_hit alias) m of
        Some kv \<Rightarrow> Some (snd kv)
      | None \<Rightarrow> if exact then None else map_option snd (find (substring_hit alias) m))"

text \<open>All keys are lower-cased, as the harvesters leave them.\<close>

definition lower_keys :: "specs \<Rightarrow> bool" where
  "lower_keys m = list_all (\<lambda>kv. lower (fst kv) = fst kv) m"



text \<open>The tests of get_no_load_current, as the code makes them: a no-load-current key;
  the two letters \<open>ma\<close> anywhere in the lower-cased key or value, which the code takes
  for milliamps (they also occur in \<open>max\<close>); an entry the loop returns at: a
  no-load-current entry without \<open>ma\<close>, or whose cleaned value \<open>float\<close> reads.\<close>

definition no_load_key :: "string \<Rightarrow> bool" where
  "no_load_key k =
     (py_in ''no'' (lower k) \<and> py_in ''load'' (lower k) \<and> py_in ''current'' (lower k))"

definition has_ma :: "string \<times> string \<Rightarrow> bool" where
  "has_ma kv = (py_in ''ma'' (lower (fst kv)) \<or> py_in ''ma'' (lower (snd kv)))"

definition no_load_usable :: "string \<times> string \<Rightarrow> bool" where
  "no_load_usable kv =
     (no_load_key (fst kv)
      \<and> (if has_ma kv then (\<exists>x. py_float (clean_number (snd kv)) = Inr x) else True))"

text \<open>The rational number a finite float stands for, and truncation towards zero.\<close>

definition fl_value :: "pyfloat \<Rightarrow> rat" where
  "fl_value x =
     (case x of
        Finite s m e \<Rightarrow> (if s then - 1 else 1) * of_int m * 2 powi e
      | Infinity s \<Rightarrow> 0
      | NaN \<Rightarrow> 0)"

definition truncate :: "rat \<Rightarrow> int" where
  "truncate q = (if q < 0 then - \<lfloor>- q\<rfloor> else \<lfloor>q\<rfloor>)"

text \<open>The mantissa of a finite float is not negative.\<close>

definition fl_wf :: "pyfloat \<Rightarrow> bool" where
  "fl_wf x = (case x of Finite s m e \<Rightarrow> 0 \<le> m | Infinity s \<Rightarrow> True | NaN \<Rightarrow> True)"

section \<open>The numeric cleaner\<close>

lemma space_not_numch: "is_space c \<Longrightarrow> \<not> is_numch c"
  by (auto simp: is_space_def is_numch_def is_digit_def Let_def)

lemma cmp_not_numch: "is_cmp c \<Longrightarrow> \<not> is_numch c"
  by (auto simp: is_cmp_def is_numch_def is_digit_def Let_def)

lemma num_group_eq:
  "num_group s = (if s \<noteq> [] \<and> is_numch (hd s) then Some (takeWhile is_numch s) else None)"
  by (cases s) (auto simp: num_group_def)

text \<open>A match of the whitespace and the group is the first run of digits and points.\<close>

lemma spaces_group_Some:
  "spaces_group s = Some g \<Longrightarrow>
     g = takeWhile is_numch (dropWhile (\<lambda>c. \<not> is_numch c) s) \<and> list_ex is_numch s"
proof (induction s)
  case Nil
  then show ?case by (simp add: num_group_def)
next
  case (Cons c cs)
  show ?case
  proof (cases "is_space c")
    case True
    with Cons.prems have "spaces_group cs = Some g"
      by (auto simp: num_group_eq space_not_numch split: option.splits)
    with Cons.IH True show ?thesis by (simp add: space_not_numch)
  next
    case False
    with Cons.prems show ?thesis
      by (auto simp: num_group_eq split: if_splits)
  qed
qed

lemma match_here_Some:
  assumes "match_here s = Some g"
  shows "g = takeWhile is_numch (dropWhile (\<lambda>c. \<not> is_numch c) s) \<and> list_ex is_numch s"
proof (cases s)
  case Nil
  with assms show ?thesis by (simp add: match_here_def num_group_def)
next
  case (Cons c cs)
  show ?thesis
  proof (cases "is_cmp c \<and> spaces_group cs \<noteq> None")
    case True
    with assms Cons have "spaces_group cs = Some g" by (auto simp: match_here_def)
    from spaces_group_Some[OF this] True Cons show ?thesis
      by (simp add: cmp_not_numch)
  next
    case False
    with assms Cons have "spaces_group s = Some g"
      by (auto simp: match_here_def split: option.splits if_splits)
    from spaces_group_Some[OF this] show ?thesis .
  qed
qed

lemma match_here_None_hd: "match_here (c # cs) = None \<Longrightarrow> \<not> is_numch c"
  by (auto simp: match_here_def num_group_eq split: option.splits if_splits)

lemma re_search_eq:
  "re_search s =
     (if list_ex is_numch s then Some (takeWhile is_numch (dropWhile (\<lambda>c. \<not> is_numch c) s))
      else None)"
proof (induction s)
  case Nil
  show ?case by (simp add: match_here_def num_group_def)
next
  case (Cons c cs)
  show ?case
  proof (cases "match_here (c # cs)")
    case None
    from match_here_None_hd[OF None] Cons.IH None show ?thesis by simp
  next
    case (Some g)
    from match_here_Some[OF Some] Some show ?thesis by simp
  qed
qed

lemma strip_Nil: "strip [] = []"
  by (simp add: strip_def)

lemma clean_number_eq:
  "clean_number text =
     (if list_ex is_numch (strip text)
      then takeWhile is_numch (dropWhile (\<lambda>c. \<not> is_numch c) (strip text))
      else strip text)"
  by (simp add: clean_number_def re_search_eq Let_def strip_Nil)

text \<open>
  What the cleaner computes: for every input, the first maximal run of digits and points
  of the trimmed text (what the pattern's group \<open>[\d.]+\<close> matches, after an optional
  comparison prefix and whitespace), and the trimmed text itself when it holds no digit and
  no point. On \<open><0.5A\<close> it yields \<open>0.5\<close>, on \<open>Approx 120\<close> it yields \<open>120\<close>, on
  \<open>N/A\<close> it yields \<open>N/A\<close>.
\<close>

lemma clean_number_first_run:
  "clean_number text =
     (if list_ex is_numch (strip text)
      then takeWhile is_numch (dropWhile (\<lambda>c. \<not> is_numch c) (strip text))
      else strip text)
   \<and> clean_number ''<0.5A'' = ''0.5''
   \<and> clean_number ''Approx 120'' = ''120''
   \<and> clean_number ''N/A'' = ''N/A''"
proof -
  have "clean_number ''<0.5A'' = ''0.5''" by code_simp
  moreover have "clean_number ''Approx 120'' = ''120''" by code_simp
  moreover have "clean_number ''N/A'' = ''N/A''" by code_simp
  ultimately show ?thesis using clean_number_eq by blast
qed

text \<open>
  Claim C7 at a failing input: the numeric cleaner is to return the numeric portion of the
  first run that is an optional comparison prefix followed by a decimal number. On
  \<open>Approx. 120\<close> that number is \<open>120\<close>; the first run of digits and points is the point
  of the abbreviation, and the code returns \<open>.\<close>, which is no number.
\<close>

theorem clean_number_not_decimal:
  "clean_number ''Approx. 120'' = ''.'' \<and> spec_clean_number ''Approx. 120'' = ''120''"
proof -
  have "clean_number ''Approx. 120'' = ''.''" by code_simp
  moreover have "spec_clean_number ''Approx. 120'' = ''120''" by code_simp
  ultimately show ?thesis by blast
qed

section \<open>The alias resolver\<close>

lemma find_exact_eq: "find_exact m (lower a) = map_option snd (find (exact_hit a) m)"
  by (induction m) (auto simp: exact_hit_def)

lemma find_substring_eq: "find_substring m (lower a) = map_option snd (find (substring_hit a) m)"
  by (induction m) (auto simp: substring_hit_def)

lemma alias_value_eq:
  "alias_value m exact a =
     (case find_exact m (lower a) of
        Some v \<Rightarrow> Some v
      | None \<Rightarrow> if \<not> exact then find_substring m (lower a) else None)"
  by (simp add: alias_value_def find_exact_eq find_substring_eq split: option.splits)

lemma get_spec_eq:
  "get_spec m keys clean exact =
     (case List.map_filter (alias_value m exact) keys of [] \<Rightarrow> [] | v # vs \<Rightarrow> cleaned clean v)"
proof (induction keys)
  case Nil
  show ?case by (simp add: List.map_filter_simps)
next
  case (Cons a keys)
  show ?case
  proof (cases "alias_value m exact a")
    case None
    then have "get_spec m (a # keys) clean exact = get_spec m keys clean exact"
      by (auto simp: alias_value_eq split: option.splits if_splits)
    with None Cons.IH show ?thesis by (simp add: List.map_filter_simps)
  next
    case (Some v)
    then have "get_spec m (a # keys) clean exact = cleaned clean v"
      by (auto simp: alias_value_eq split: option.splits if_splits)
    with Some show ?thesis by (simp add: List.map_filter_simps)
  qed
qed

lemma find_exact_nonempty: "find_exact (nonempty_entries m) a = find_exact m a"
  by (induction m) (auto simp: nonempty_entries_def)

lemma find_substring_nonempty: "find_substring (nonempty_entries m) a = find_substring m a"
  by (induction m) (auto simp: nonempty_entries_def)

lemma get_spec_nonempty:
  "get_spec (nonempty_entries m) keys clean exact = get_spec m keys clean exact"
  by (induction keys) (auto simp: find_exact_nonempty find_substring_nonempty split: option.splits)

lemma nonempty_entries_drop:
  "nonempty_entries (xs @ (k, []) # ys) = nonempty_entries (xs @ ys)"
  by (simp add: nonempty_entries_def)

lemma find_exact_mem: "find_exact m a = Some v \<Longrightarrow> \<exists>k. (k, v) \<in> set m \<and> v \<noteq> []"
  by (induction m) (auto split: if_splits)

lemma find_substring_mem: "find_substring m a = Some v \<Longrightarrow> \<exists>k. (k, v) \<in> set m \<and> v \<noteq> []"
  by (induction m) (auto split: if_splits)

lemma get_spec_source:
  "get_spec m keys clean exact = [] \<or>
   (\<exists>k v. (k, v) \<in> set m \<and> v \<noteq> [] \<and> get_spec m keys clean exact = cleaned clean v)"
proof (induction keys)
  case Nil
  show ?case by simp
next
  case (Cons a keys)
  show ?case
  proof (cases "find_exact m (lower a)")
    case (Some v)
    with find_exact_mem[OF Some] show ?thesis by auto
  next
    case None
    show ?thesis
    proof (cases "\<not> exact \<and> find_substring m (lower a) \<noteq> None")
      case True
      then obtain v where v: "find_substring m (lower a) = Some v" by auto
      with find_substring_mem[OF v] None True show ?thesis by auto
    next
      case False
      with None have "get_spec m (a # keys) clean exact = get_spec m keys clean exact"
        by (auto split: option.splits)
      with Cons.IH show ?thesis by simp
    qed
  qed
qed

text \<open>
  Claim C10: in the generic alias resolution of the motor engine, an entry whose value is
  the empty string is skipped by the exact and by the substring pass. The resolver gives
  the same result on the dictionary and on its entries with a non-empty value, removing
  one entry with an empty value changes nothing, and a result is the empty string or the
  cleaned value of an entry whose raw value is not empty.
\<close>

theorem get_spec_skips_empty_values:
  "get_spec m keys clean exact = get_spec (nonempty_entries m) keys clean exact
   \<and> get_spec (xs @ (k, []) # ys) keys clean exact = get_spec (xs @ ys) keys clean exact
   \<and> (get_spec m keys clean exact = [] \<or>
       (\<exists>k v. (k, v) \<in> set m \<and> v \<noteq> [] \<and> get_spec m keys clean exact = cleaned clean v))"
proof -
  have "get_spec (xs @ (k, []) # ys) keys clean exact = get_spec (xs @ ys) keys clean exact"
    using get_spec_nonempty[of "xs @ (k, []) # ys" keys clean exact]
      get_spec_nonempty[of "xs @ ys" keys clean exact]
    by (simp add: nonempty_entries_drop)
  then show ?thesis
    using get_spec_nonempty[of m keys clean exact] get_spec_source[of m keys clean exact]
    by simp
qed

text \<open>
  Claim C1, as the motor engine has it: get_spec walks the aliases in the declared order;
  an alias resolves to the first entry, among those with a non-empty value, whose key
  equals it case-insensitively, and with no such entry, unless exact matching is required,
  to the first such entry whose key contains the alias or is contained in it; the first
  alias that resolves gives the field, cleaned, and the field is the empty string when no
  alias resolves. With the aliases \<open>nominal voltage\<close>, \<open>voltage\<close> and a dictionary
  holding \<open>operating voltage: 7.4\<close> and \<open>nominal voltage: 11.1\<close> the value is \<open>11.1\<close>,
  in the motor engine's resolver and in the battery engine's.
\<close>

theorem get_spec_alias_walk:
  "get_spec m keys clean exact =
     (case List.map_filter (alias_value m exact) keys of [] \<Rightarrow> [] | v # vs \<Rightarrow> cleaned clean v)
   \<and> get_spec [(''operating voltage'', ''7.4''), (''nominal voltage'', ''11.1'')]
        [''nominal voltage'', ''voltage''] True False = ''11.1''
   \<and> battery_get_spec [(''operating voltage'', ''7.4''), (''nominal voltage'', ''11.1'')]
        [''nominal voltage'', ''voltage''] True False = ''11.1''"
proof -
  have "get_spec [(''operating voltage'', ''7.4''), (''nominal voltage'', ''11.1'')]
        [''nominal voltage'', ''voltage''] True False = ''11.1''" by code_simp
  moreover have "battery_get_spec [(''operating voltage'', ''7.4''), (''nominal voltage'', ''11.1'')]
        [''nominal voltage'', ''voltage''] True False = ''11.1''" by code_simp
  ultimately show ?thesis using get_spec_eq by blast
qed

text \<open>
  The walk as the spec words it, \<open>spec_resolve\<close>, takes any key that matches. The motor
  engine passes over a key whose value is empty and lets a later alias decide. The battery
  engine has no exact pass before the substring pass: the first key in dictionary order
  that contains the alias decides, here \<open>max voltage\<close> before the key \<open>voltage\<close> itself.
\<close>

theorem get_spec_not_spec_resolve:
  "get_spec [(''voltage'', []), (''vdc'', ''12'')] [''voltage'', ''vdc''] True False = ''12''
   \<and> spec_resolve [(''voltage'', []), (''vdc'', ''12'')] [''voltage'', ''vdc''] True False = []
   \<and> battery_get_spec [(''max voltage'', ''4.2''), (''voltage'', ''3.7'')]
        [''nominal voltage'', ''voltage''] True False = ''4.2''
   \<and> spec_resolve [(''max voltage'', ''4.2''), (''voltage'', ''3.7'')]
        [''nominal voltage'', ''voltage''] True False = ''3.7''"
proof -
  have "get_spec [(''voltage'', []), (''vdc'', ''12'')] [''voltage'', ''vdc''] True False = ''12''"
    by code_simp
  moreover have "spec_resolve [(''voltage'', []), (''vdc'', ''12'')] [''voltage'', ''vdc''] True False = []"
    by code_simp
  moreover have "battery_get_spec [(''max voltage'', ''4.2''), (''voltage'', ''3.7'')]
        [''nominal voltage'', ''voltage''] True False = ''4.2''" by code_simp
  moreover have "spec_resolve [(''max voltage'', ''4.2''), (''voltage'', ''3.7'')]
        [''nominal voltage'', ''voltage''] True False = ''3.7''" by code_simp
  ultimately show ?thesis by blast
qed

section \<open>The merge policy\<close>

lemma map_of_dict_set: "map_of (dict_set d k v) = (map_of d)(k \<mapsto> v)"
  by (induction d) (auto simp: fun_eq_iff)

lemma keys_dict_set: "fst ` set (dict_set d k v) = insert k (fst ` set d)"
proof (induction d)
  case Nil
  show ?case by simp
next
  case (Cons a d)
  then show ?case by (cases a) (simp add: insert_commute)
qed

lemma distinct_dict_set: "distinct (map fst d) \<Longrightarrow> distinct (map fst (dict_set d k v))"
proof (induction d)
  case Nil
  show ?case by simp
next
  case (Cons a d)
  obtain k' v' where a: "a = (k', v')" by (cases a)
  from Cons have "distinct (map fst (dict_set d k v))" by simp
  moreover have "k' \<noteq> k \<Longrightarrow> k' \<notin> fst ` set (dict_set d k v)"
    using Cons.prems a by (simp add: keys_dict_set)
  ultimately show ?case using Cons.prems a by auto
qed

lemma map_of_dict_update:
  "distinct (map fst e) \<Longrightarrow> map_of (dict_update d e) = map_of d ++ map_of e"
proof (induction e arbitrary: d)
  case Nil
  show ?case by simp
next
  case (Cons a e)
  obtain k v where a: "a = (k, v)" by (cases a)
  from Cons.prems a have k: "k \<notin> dom (map_of e)" by (auto simp: dom_map_of_conv_image_fst)
  from Cons a have "map_of (dict_update d (a # e)) = (map_of d)(k \<mapsto> v) ++ map_of e"
    by (simp add: map_of_dict_set)
  also have "\<dots> = map_of d ++ map_of (a # e)"
    using k a by (auto simp: fun_eq_iff map_add_def split: option.splits)
  finally show ?case .
qed

lemma distinct_dict_update:
  "distinct (map fst d) \<Longrightarrow> distinct (map fst (dict_update d e))"
  by (induction e arbitrary: d) (auto simp: distinct_dict_set)

lemma keys_dict_update: "fst ` set (dict_update d e) = fst ` set d \<union> fst ` set e"
proof (induction e arbitrary: d)
  case Nil
  show ?case by simp
next
  case (Cons a e)
  then show ?case by (cases a) (simp add: keys_dict_set)
qed

lemma dict_update_Nil: "distinct (map fst e) \<Longrightarrow> map_of (dict_update [] e) = map_of e"
  by (simp add: map_of_dict_update)

lemma dict_get_merge:
  assumes "distinct (map fst r)" "distinct (map fst g)" "distinct (map fst t)"
  shows "dict_get (merge_specs r g t) k =
     (case dict_get t k of Some v \<Rightarrow> Some v
      | None \<Rightarrow> (case dict_get g k of Some v \<Rightarrow> Some v | None \<Rightarrow> dict_get r k))"
  using assms
  by (simp add: dict_get_def merge_specs_def map_of_dict_update map_add_def split: option.splits)

lemma dict_get_battery_merge:
  assumes "distinct (map fst g)" "distinct (map fst t)"
  shows "dict_get (battery_merge_specs g t) k =
     (case dict_get t k of Some v \<Rightarrow> Some v | None \<Rightarrow> dict_get g k)"
  using assms
  by (simp add: dict_get_def battery_merge_specs_def map_of_dict_update map_add_def split: option.splits)

lemma lower_keys_set: "lower_keys m \<longleftrightarrow> (\<forall>k \<in> fst ` set m. lower k = k)"
  by (auto simp: lower_keys_def list_all_iff)

lemma lower_keys_merge:
  "lower_keys (r @ g @ t) \<Longrightarrow> lower_keys (merge_specs r g t)"
  unfolding lower_keys_set merge_specs_def keys_dict_update by auto

lemma find_exact_lookup:
  "lower_keys m \<Longrightarrow> map_of m k = Some v \<Longrightarrow> v \<noteq> [] \<Longrightarrow> find_exact m k = Some v"
  by (induction m) (auto simp: lower_keys_def split: if_splits)

lemma get_spec_lookup:
  assumes "lower_keys m" "dict_get m k = Some v" "v \<noteq> []"
  shows "get_spec m [k] clean exact = cleaned clean v"
proof -
  from assms have "k \<in> fst ` set m" by (auto simp: dict_get_def dest: map_of_SomeD intro: rev_image_eqI)
  with assms(1) have "lower k = k" unfolding lower_keys_set by blast
  with find_exact_lookup[of m k v] assms show ?thesis by (simp add: dict_get_def)
qed

text \<open>
  Claim C2: the merge is a plain key overwrite in the order regex, list, table. For every
  key, the merged dictionary holds the table's value when the table has the key, else the
  list's value when the list has it, else the regex source's; the battery engine merges
  list and table the same way. The resolved field follows: with lower-cased keys, a field
  resolved by the alias \<open>k\<close> is the cleaned value the merged dictionary holds for \<open>k\<close>,
  when that value is not empty.
\<close>

theorem merge_precedence:
  assumes "distinct (map fst regex)" "distinct (map fst general)" "distinct (map fst table)"
  shows "dict_get (merge_specs regex general table) k =
           (case dict_get table k of Some v \<Rightarrow> Some v
            | None \<Rightarrow> (case dict_get general k of Some v \<Rightarrow> Some v | None \<Rightarrow> dict_get regex k))
         \<and> dict_get (battery_merge_specs general table) k =
           (case dict_get table k of Some v \<Rightarrow> Some v | None \<Rightarrow> dict_get general k)
         \<and> (lower_keys (regex @ general @ table) \<longrightarrow>
              dict_get (merge_specs regex general table) k = Some v \<longrightarrow> v \<noteq> [] \<longrightarrow>
              get_spec (merge_specs regex general table) [k] clean exact = cleaned clean v)"
  using dict_get_merge[OF assms] dict_get_battery_merge[OF assms(2,3)]
    get_spec_lookup[OF lower_keys_merge] by blast

theorem merge_precedence_witness:
  "dict_get (merge_specs [(''weight_kg'', ''1''), (''efficiency'', ''80'')]
       [(''weight_kg'', ''2''), (''efficiency'', ''85'')] [(''weight_kg'', ''3'')]) ''weight_kg'' = Some ''3''
   \<and> dict_get (merge_specs [(''weight_kg'', ''1''), (''efficiency'', ''80'')]
       [(''weight_kg'', ''2''), (''efficiency'', ''85'')] [(''weight_kg'', ''3'')]) ''efficiency'' = Some ''85''
   \<and> get_spec (merge_specs [(''weight_kg'', ''1''), (''efficiency'', ''80'')]
       [(''weight_kg'', ''2''), (''efficiency'', ''85'')] [(''weight_kg'', ''3'')]) [''weight_kg''] True True = ''3''"
proof -
  let ?r = "[(''weight_kg'', ''1''), (''efficiency'', ''80'')]"
  let ?g = "[(''weight_kg'', ''2''), (''efficiency'', ''85'')]"
  let ?t = "[(''weight_kg'', ''3'')]"
  have d: "distinct (map fst ?r)" "distinct (map fst ?g)" "distinct (map fst ?t)" by simp_all
  have l: "lower_keys (?r @ ?g @ ?t)" by code_simp
  have c: "cleaned True ''3'' = ''3''" by code_simp
  have t1: "dict_get ?t ''weight_kg'' = Some ''3''" by (simp add: dict_get_def)
  have t2: "dict_get ?t ''efficiency'' = None" "dict_get ?g ''efficiency'' = Some ''85''"
    by (simp_all add: dict_get_def)
  from merge_precedence[OF d, of "''weight_kg''" "''3''" True True] l t1 c
  have "dict_get (merge_specs ?r ?g ?t) ''weight_kg'' = Some ''3''
      \<and> get_spec (merge_specs ?r ?g ?t) [''weight_kg''] True True = ''3''" by simp
  moreover from merge_precedence[OF d, of "''efficiency''"] t2
  have "dict_get (merge_specs ?r ?g ?t) ''efficiency'' = Some ''85''" by simp
  ultimately show ?thesis by simp
qed

section \<open>The composite dimension field\<close>


lemma get_dimension_eq:
  "get_dimension m d =
     (case find (\<lambda>kv. py_in d (lower (fst kv))) m of None \<Rightarrow> [] | Some kv \<Rightarrow> clean_number (snd kv))"
  by (induction m) auto


section \<open>Absence handling\<close>

lemma get_spec_empty: "get_spec [] keys clean exact = []"
  by (induction keys) auto

lemma battery_get_spec_empty: "battery_get_spec [] keys clean exact = []"
  by (induction keys) auto

lemma merge_specs_empty: "merge_specs [] [] [] = []"
  by (simp add: merge_specs_def)

lemma get_efficiency_empty: "get_efficiency [] = Inr []"
  by (simp add: get_efficiency_def get_spec_empty)

lemma get_weight_empty: "get_weight [] = Inr []"
  by (simp add: get_weight_def get_spec_empty)

lemma motor_record_empty:
  "motor_record u p [] [] [] [] =
     zip CSV_COLUMNS ([product_name p, u, stock_status p, price p] @ replicate 17 [])"
  by (simp add: motor_record_def CSV_COLUMNS_def get_spec_empty numeral_eq_Suc)

lemma battery_record_empty:
  "battery_record u p [] =
     zip battery_CSV_COLUMNS ([product_name p, u, stock_status p, price p] @ replicate 18 [])"
  by (simp add: battery_record_def battery_CSV_COLUMNS_def battery_get_spec_empty
      get_full_dimensions_def py_or_def numeral_eq_Suc)

lemma scrape_product_empty:
  "general_info p = [] \<Longrightarrow> spec_table p = [] \<Longrightarrow> regex_specs p = [] \<Longrightarrow>
   scrape_product url (Some p) =
     Inr (zip CSV_COLUMNS ([product_name p, rstrip_slash url, stock_status p, price p] @ replicate 17 []))"
  by (simp add: scrape_product_def merge_specs_empty get_efficiency_empty get_weight_empty
      motor_record_empty)

lemma name_of_motor_record: "dict_get (motor_record u p m a b c) ''Product Name'' = Some (product_name p)"
  by (simp add: dict_get_def motor_record_def)

lemma scrape_product_safe_no_name:
  "product_name p = [] \<Longrightarrow> scrape_product_safe url (Some p) = None"
  by (auto simp: scrape_product_safe_def scrape_product_def name_of_motor_record Let_def
      split: sum.splits)

lemma rstrip_slash_u: "rstrip_slash ''u/'' = ''u''"
  by (simp add: rstrip_slash_def)

text \<open>
  Claim C8, as the code has it. The battery engine reports absence exactly when no product
  name was extracted, and otherwise returns a record, whose fields past the four identity
  fields (name, URL, stock status, price) are all empty when the list and the table
  harvested nothing. The motor engine's scrape_product has no such test: on a document
  with no region and no regex match it returns a record with every specification field
  empty, whatever the name; a missing name is reported as absence by its caller
  scrape_product_safe.
\<close>

theorem absence_handling:
  "(product_name p = [] \<longrightarrow> scrape_battery url (Some p) = None)
   \<and> (product_name p \<noteq> [] \<longrightarrow> (\<exists>r. scrape_battery url (Some p) = Some r))
   \<and> (product_name p \<noteq> [] \<longrightarrow> general_info p = [] \<longrightarrow> spec_table p = [] \<longrightarrow>
        scrape_battery url (Some p) =
          Some (zip battery_CSV_COLUMNS
                  ([product_name p, rstrip_slash url, stock_status p, price p] @ replicate 18 [])))
   \<and> (general_info p = [] \<longrightarrow> spec_table p = [] \<longrightarrow> regex_specs p = [] \<longrightarrow>
        scrape_product url (Some p) =
          Inr (zip CSV_COLUMNS
                 ([product_name p, rstrip_slash url, stock_status p, price p] @ replicate 17 [])))
   \<and> (product_name p = [] \<longrightarrow> scrape_product_safe url (Some p) = None)"
  using scrape_product_empty[of p url] scrape_product_safe_no_name[of p url]
  by (simp add: scrape_battery_def battery_merge_specs_def battery_record_empty)

theorem absence_handling_witness:
  "scrape_battery ''u/'' (Some \<lparr>product_name = [], stock_status = ''Unknown'', price = [],
       general_info = [], spec_table = [], regex_specs = []\<rparr>) = None
   \<and> scrape_product_safe ''u/'' (Some \<lparr>product_name = [], stock_status = ''Unknown'', price = [],
       general_info = [], spec_table = [], regex_specs = []\<rparr>) = None
   \<and> scrape_battery ''u/'' (Some \<lparr>product_name = ''M'', stock_status = ''Unknown'', price = [],
       general_info = [], spec_table = [], regex_specs = []\<rparr>) =
       Some (zip battery_CSV_COLUMNS ([''M'', ''u'', ''Unknown'', []] @ replicate 18 []))
   \<and> scrape_product ''u/'' (Some \<lparr>product_name = ''M'', stock_status = ''Unknown'', price = [],
       general_info = [], spec_table = [], regex_specs = []\<rparr>) =
       Inr (zip CSV_COLUMNS ([''M'', ''u'', ''Unknown'', []] @ replicate 17 []))"
  using absence_handling[of "\<lparr>product_name = [], stock_status = ''Unknown'', price = [],
       general_info = [], spec_table = [], regex_specs = []\<rparr>" "''u/''"]
    absence_handling[of "\<lparr>product_name = ''M'', stock_status = ''Unknown'', price = [],
       general_info = [], spec_table = [], regex_specs = []\<rparr>" "''u/''"]
  by (simp add: rstrip_slash_u)

text \<open>
  On a document with no product name the motor engine's scrape_product produces a record,
  its name field empty, where the claim has the engine report absence.
\<close>

theorem scrape_product_without_name:
  "scrape_product ''u/'' (Some \<lparr>product_name = [], stock_status = ''Unknown'', price = [],
       general_info = [], spec_table = [], regex_specs = []\<rparr>) =
     Inr (zip CSV_COLUMNS ([[], ''u'', ''Unknown'', []] @ replicate 17 []))"
  using scrape_product_empty[of "\<lparr>product_name = [], stock_status = ''Unknown'', price = [],
       general_info = [], spec_table = [], regex_specs = []\<rparr>" "''u/''"]
  by (simp add: rstrip_slash_u)

section \<open>The output record\<close>

lemma keys_motor_record: "map fst (motor_record u p m a b c) = CSV_COLUMNS"
  by (simp add: motor_record_def CSV_COLUMNS_def)

lemma keys_battery_record: "map fst (battery_record u p m) = battery_CSV_COLUMNS"
  by (simp add: battery_record_def battery_CSV_COLUMNS_def)

lemma distinct_columns: "distinct CSV_COLUMNS \<and> distinct battery_CSV_COLUMNS"
  by (simp add: CSV_COLUMNS_def battery_CSV_COLUMNS_def)

text \<open>
  Claim C9: every record produced for a parsed document holds exactly the declared output
  fields, in the declared order, in the motor engine and in the battery engine; the
  declared names are pairwise distinct.
\<close>

theorem record_fields_fixed:
  "(scrape_product url (Some p) = Inr r \<longrightarrow> map fst r = CSV_COLUMNS)
   \<and> (scrape_battery url (Some p) = Some r' \<longrightarrow> map fst r' = battery_CSV_COLUMNS)
   \<and> distinct CSV_COLUMNS \<and> distinct battery_CSV_COLUMNS"
  using distinct_columns
  by (auto simp: scrape_product_def scrape_battery_def keys_motor_record keys_battery_record Let_def
      split: sum.splits if_splits)

theorem record_fields_fixed_witness:
  "map fst (zip CSV_COLUMNS ([''M'', ''u'', ''Unknown'', []] @ replicate 17 [])) = CSV_COLUMNS
   \<and> map fst (zip battery_CSV_COLUMNS ([''M'', ''u'', ''Unknown'', []] @ replicate 18 []))
       = battery_CSV_COLUMNS"
proof -
  let ?p = "\<lparr>product_name = ''M'', stock_status = ''Unknown'', price = [],
       general_info = [], spec_table = [], regex_specs = []\<rparr>"
  have m: "scrape_product ''u/'' (Some ?p) =
       Inr (zip CSV_COLUMNS ([''M'', ''u'', ''Unknown'', []] @ replicate 17 []))"
    using scrape_product_empty[of ?p "''u/''"] by (simp add: rstrip_slash_u)
  have b: "scrape_battery ''u/'' (Some ?p) =
       Some (zip battery_CSV_COLUMNS ([''M'', ''u'', ''Unknown'', []] @ replicate 18 []))"
    by (simp add: scrape_battery_def battery_merge_specs_def battery_record_empty rstrip_slash_u)
  from record_fields_fixed[of "''u/''" ?p
      "zip CSV_COLUMNS ([''M'', ''u'', ''Unknown'', []] @ replicate 17 [])"
      "zip battery_CSV_COLUMNS ([''M'', ''u'', ''Unknown'', []] @ replicate 18 [])"] m b
  show ?thesis by blast
qed

section \<open>The rounding of the float model\<close>

text \<open>
  \<open>fl_round\<close> returns floats in the canonical form of binary64 (a mantissa below \<open>2^53\<close>,
  at least \<open>2^52\<close> unless the exponent is the least one, \<open>-1074\<close>) and within half a unit
  in the last place of the exact ratio: it rounds to a nearest float.
\<close>

lemma ndigits_bounds:
  "0 < a \<Longrightarrow> 1 < base \<Longrightarrow>
   1 \<le> ndigits base a \<and> base ^ nat (ndigits base a - 1) \<le> a \<and> a < base ^ nat (ndigits base a)"
proof (induction base a rule: ndigits.induct)
  case (1 base a)
  show ?case
  proof (cases "a < base")
    case True
    with "1.prems" have "a div base = 0" by simp
    then have "ndigits base a = 1"
      using "1.prems" by (simp add: ndigits.simps[of base a] ndigits.simps[of base 0])
    with True "1.prems" show ?thesis by simp
  next
    case False
    with "1.prems" have d: "0 < a div base" by (simp add: pos_imp_zdiv_pos_iff)
    let ?n = "ndigits base (a div base)"
    from "1.IH" "1.prems" d have ih: "1 \<le> ?n" "base ^ nat (?n - 1) \<le> a div base"
      "a div base < base ^ nat ?n" by simp_all
    have n: "ndigits base a = ?n + 1" using "1.prems" by (simp add: ndigits.simps[of base a])
    have s: "nat ?n = Suc (nat (?n - 1))" using ih(1) by simp
    have "base * (a div base) \<le> a"
    proof -
      have "a = base * (a div base) + a mod base" by simp
      moreover have "0 \<le> a mod base" using "1.prems" by simp
      ultimately show ?thesis by linarith
    qed
    moreover have "base * base ^ nat (?n - 1) \<le> base * (a div base)"
      using ih(2) "1.prems" by (simp add: mult_left_mono)
    ultimately have lo: "base ^ nat ?n \<le> a" using s by simp
    have "a div base + 1 \<le> base ^ nat ?n" using ih(3) by simp
    then have "base * (a div base + 1) \<le> base * base ^ nat ?n"
      using "1.prems" by (simp add: mult_left_mono)
    moreover have "a < base * (a div base + 1)"
    proof -
      have "a = base * (a div base) + a mod base" by simp
      moreover have "a mod base < base" using "1.prems" by simp
      moreover have "base * (a div base + 1) = base * (a div base) + base"
        by (simp add: algebra_simps)
      ultimately show ?thesis by linarith
    qed
    ultimately have hi: "a < base ^ nat (?n + 1)" using ih(1) by (simp add: nat_add_distrib)
    from n lo hi ih(1) show ?thesis by simp
  qed
qed

lemma round_ratio_error:
  assumes "0 < b"
  shows "\<bar>(of_int (round_ratio a b) :: rat) - of_int a / of_int b\<bar> \<le> 1 / 2"
proof -
  define q where "q = a div b"
  define r where "r = a mod b"
  have a: "a = q * b + r" by (simp add: q_def r_def)
  have r: "0 \<le> r" "r < b" using assms by (simp_all add: r_def)
  have b: "(0::rat) < of_int b" using assms by simp
  have ab: "(of_int a :: rat) / of_int b = of_int q + of_int r / of_int b"
    using b a by (simp add: field_simps)
  have rb: "(0::rat) \<le> of_int r / of_int b" "(of_int r :: rat) / of_int b < 1"
    using r b by simp_all
  consider "2 * r < b" | "b < 2 * r" | "2 * r = b" by linarith
  then show ?thesis
  proof cases
    case 1
    then have "round_ratio a b = q" by (simp add: round_ratio_def q_def r_def Let_def)
    moreover have "(of_int r :: rat) / of_int b < 1 / 2"
    proof -
      from 1 have "of_int (2 * r) < (of_int b :: rat)" by (simp only: of_int_less_iff)
      with b show ?thesis by (simp add: field_simps)
    qed
    ultimately show ?thesis using ab rb by simp
  next
    case 2
    then have "round_ratio a b = q + 1" by (simp add: round_ratio_def q_def r_def Let_def)
    moreover have "1 / 2 < (of_int r :: rat) / of_int b"
    proof -
      from 2 have "(of_int b :: rat) < of_int (2 * r)" by (simp only: of_int_less_iff)
      with b show ?thesis by (simp add: field_simps)
    qed
    ultimately show ?thesis using ab rb by simp
  next
    case 3
    then have "round_ratio a b = q \<or> round_ratio a b = q + 1"
      by (auto simp: round_ratio_def q_def r_def Let_def)
    moreover have "(of_int r :: rat) / of_int b = 1 / 2"
    proof -
      from 3 have "(of_int b :: rat) = of_int (2 * r)" by simp
      with b show ?thesis by (simp add: field_simps)
    qed
    ultimately show ?thesis using ab by auto
  qed
qed

lemma two_powi_pos: "(0::rat) < 2 powi k"
  by (simp add: zero_less_power_int)

lemma of_int_two_power: "(of_int ((2::int) ^ n) :: rat) = 2 powi (int n)"
  by simp

lemma two_powi_nat: "0 \<le> k \<Longrightarrow> (2::rat) powi k = of_int (2 ^ nat k)"
  by (simp add: power_int_nonneg_exp)

lemma two_powi_neg: "k < 0 \<Longrightarrow> (2::rat) powi k = 1 / of_int (2 ^ nat (- k))"
  by (simp add: power_int_def power_one_over)

lemma scaled_ratio:
  assumes "0 < b"
  shows "0 < (if 0 \<le> e then b * 2 ^ nat e else b)"
    and "(of_int (if 0 \<le> e then a else a * 2 ^ nat (- e)) :: rat)
           / of_int (if 0 \<le> e then b * 2 ^ nat e else b)
         = (of_int a / of_int b) / 2 powi e"
  using assms by (auto simp: two_powi_nat two_powi_neg not_le)

lemma log_condition:
  assumes "0 < a" "0 < b"
  shows "(if 0 \<le> e then b * 2 ^ nat e \<le> a else b \<le> a * 2 ^ nat (- e))
         \<longleftrightarrow> (2::rat) powi e \<le> of_int a / of_int b"
proof (cases "0 \<le> e")
  case True
  have "b * 2 ^ nat e \<le> a \<longleftrightarrow> (of_int (b * 2 ^ nat e) :: rat) \<le> of_int a"
    by (simp only: of_int_le_iff)
  also have "\<dots> \<longleftrightarrow> (2::rat) powi e \<le> of_int a / of_int b"
    using assms True by (simp add: two_powi_nat field_simps)
  finally show ?thesis using True by simp
next
  case False
  have "b \<le> a * 2 ^ nat (- e) \<longleftrightarrow> (of_int b :: rat) \<le> of_int (a * 2 ^ nat (- e))"
    by (simp only: of_int_le_iff)
  also have "\<dots> \<longleftrightarrow> (2::rat) powi e \<le> of_int a / of_int b"
    using assms False by (simp add: two_powi_neg field_simps)
  finally show ?thesis using False by simp
qed

lemma ndigits_rat:
  assumes "0 < a"
  shows "(2::rat) powi (ndigits 2 a - 1) \<le> of_int a" "(of_int a :: rat) < 2 powi (ndigits 2 a)"
    "1 \<le> ndigits 2 a"
proof -
  from ndigits_bounds[OF assms, of 2]
  have n: "1 \<le> ndigits 2 a" and lo: "2 ^ nat (ndigits 2 a - 1) \<le> a" and hi: "a < 2 ^ nat (ndigits 2 a)"
    by simp_all
  from lo have "(of_int (2 ^ nat (ndigits 2 a - 1)) :: rat) \<le> of_int a" by (simp only: of_int_le_iff)
  with n show "(2::rat) powi (ndigits 2 a - 1) \<le> of_int a" by (simp add: two_powi_nat)
  from hi have "(of_int a :: rat) < of_int (2 ^ nat (ndigits 2 a))" by (simp only: of_int_less_iff)
  with n show "(of_int a :: rat) < 2 powi (ndigits 2 a)" by (simp add: two_powi_nat)
  show "1 \<le> ndigits 2 a" by (rule n)
qed

lemma floor_log_ratio_bounds:
  assumes "0 < a" "0 < b"
  shows "(2::rat) powi (floor_log_ratio 2 a b) \<le> of_int a / of_int b"
    and "(of_int a :: rat) / of_int b < 2 powi (floor_log_ratio 2 a b + 1)"
proof -
  define A where "A = (of_int a :: rat)"
  define B where "B = (of_int b :: rat)"
  define e where "e = ndigits 2 a - ndigits 2 b"
  have pos: "0 < A" "0 < B" using assms by (simp_all add: A_def B_def)
  note na = ndigits_rat[OF assms(1), folded A_def]
  note nb = ndigits_rat[OF assms(2), folded B_def]
  have up: "A / B < 2 powi (e + 1)"
  proof -
    have "A / B < 2 powi (ndigits 2 a) / B" using na(2) pos by (simp add: divide_strict_right_mono)
    also have "\<dots> \<le> 2 powi (ndigits 2 a) / 2 powi (ndigits 2 b - 1)"
      using nb(1) pos two_powi_pos[of "ndigits 2 b - 1"] two_powi_pos[of "ndigits 2 a"]
      by (simp add: frac_le)
    also have "\<dots> = 2 powi (e + 1)"
      by (simp add: e_def power_int_diff[symmetric] algebra_simps)
    finally show ?thesis .
  qed
  have lo: "2 powi (e - 1) < A / B"
  proof -
    have "2 powi (e - 1) = 2 powi (ndigits 2 a - 1) / (2::rat) powi (ndigits 2 b)"
      by (simp add: e_def power_int_diff[symmetric] algebra_simps)
    also have "\<dots> \<le> A / 2 powi (ndigits 2 b)"
      using na(1) two_powi_pos[of "ndigits 2 b"] by (simp add: divide_right_mono)
    also have "\<dots> < A / B"
      using nb(2) pos by (simp add: divide_strict_left_mono)
    finally show ?thesis .
  qed
  have c: "(if 0 \<le> e then b * 2 ^ nat e \<le> a else b \<le> a * 2 ^ nat (- e)) \<longleftrightarrow> 2 powi e \<le> A / B"
    unfolding A_def B_def by (rule log_condition[OF assms])
  have f: "floor_log_ratio 2 a b = (if 2 powi e \<le> A / B then e else e - 1)"
    using c by (simp add: floor_log_ratio_def e_def[symmetric] Let_def)
  show "(2::rat) powi (floor_log_ratio 2 a b) \<le> of_int a / of_int b"
    using f lo by (auto simp: A_def B_def)
  show "(of_int a :: rat) / of_int b < 2 powi (floor_log_ratio 2 a b + 1)"
    using f up by (auto simp: A_def B_def not_le)
qed

text \<open>What fl_round computes before the choice between a float and an infinity.\<close>

lemma fl_round_unfold:
  fixes a b :: int
  assumes "a \<noteq> 0"
  defines "e0 \<equiv> max (floor_log_ratio 2 a b - 52) (- 1074)"
  defines "r \<equiv> round_ratio (if 0 \<le> e0 then a else a * 2 ^ nat (- e0))
                            (if 0 \<le> e0 then b * 2 ^ nat e0 else b)"
  shows "fl_round s a b =
           (if 971 < (if r = 2 ^ 53 then e0 + 1 else e0) then Infinity s
            else Finite s (if r = 2 ^ 53 then 2 ^ 52 else r) (if r = 2 ^ 53 then e0 + 1 else e0))"
  using assms(1) unfolding fl_round_def e0_def r_def Let_def by (auto simp: not_le)

lemma int_le_from_rat:
  assumes "(of_int r :: rat) \<le> x + 1 / 2" "x < of_int n"
  shows "r \<le> n"
proof -
  from assms have "(of_int r :: rat) < of_int n + 1" by linarith
  then have "(of_int r :: rat) < of_int (n + 1)" by simp
  then have "r < n + 1" by (simp only: of_int_less_iff)
  then show ?thesis by simp
qed

lemma int_ge_from_rat:
  assumes "x - 1 / 2 \<le> (of_int r :: rat)" "of_int n \<le> x"
  shows "n \<le> r"
proof -
  from assms have "(of_int n :: rat) - 1 < of_int r" by linarith
  then have "(of_int (n - 1) :: rat) < of_int r" by simp
  then have "n - 1 < r" by (simp only: of_int_less_iff)
  then show ?thesis by simp
qed

lemma fl_round_core:
  fixes a b :: int
  assumes "0 < a" "0 < b"
  defines "e0 \<equiv> max (floor_log_ratio 2 a b - 52) (- 1074)"
  defines "r \<equiv> round_ratio (if 0 \<le> e0 then a else a * 2 ^ nat (- e0))
                            (if 0 \<le> e0 then b * 2 ^ nat e0 else b)"
  shows "\<bar>(of_int r :: rat) * 2 powi e0 - of_int a / of_int b\<bar> \<le> 2 powi e0 / 2"
    and "0 \<le> r" and "r \<le> 2 ^ 53" and "- 1074 < e0 \<Longrightarrow> 2 ^ 52 \<le> r"
proof -
  define x where "x = (of_int a / of_int b :: rat) / 2 powi e0"
  define f where "f = floor_log_ratio 2 a b"
  have p: "(0::rat) < 2 powi e0" by (rule two_powi_pos)
  have sc: "(of_int (if 0 \<le> e0 then a else a * 2 ^ nat (- e0)) :: rat)
           / of_int (if 0 \<le> e0 then b * 2 ^ nat e0 else b) = x"
    unfolding x_def by (rule scaled_ratio(2)[OF assms(2)])
  have err: "\<bar>(of_int r :: rat) - x\<bar> \<le> 1 / 2"
    using round_ratio_error[OF scaled_ratio(1)[OF assms(2), of e0],
        of "if 0 \<le> e0 then a else a * 2 ^ nat (- e0)"]
    unfolding r_def sc .
  have "(of_int r :: rat) * 2 powi e0 - of_int a / of_int b = (of_int r - x) * 2 powi e0"
    using p by (simp add: x_def algebra_simps)
  then have "\<bar>(of_int r :: rat) * 2 powi e0 - of_int a / of_int b\<bar> = \<bar>of_int r - x\<bar> * 2 powi e0"
    using p by (simp add: abs_mult)
  also have "\<dots> \<le> (1 / 2) * 2 powi e0"
    using err p by (simp add: mult_right_mono)
  finally show "\<bar>(of_int r :: rat) * 2 powi e0 - of_int a / of_int b\<bar> \<le> 2 powi e0 / 2"
    by simp
  have x0: "0 < x" using assms(1,2) p by (simp add: x_def)
  from err x0 have "- 1 / 2 < (of_int r :: rat)" by linarith
  then have "(of_int (- 1) :: rat) < of_int r" by simp
  then have "- 1 < r" by (simp only: of_int_less_iff)
  then show "0 \<le> r" by simp
  have e0: "f - 52 \<le> e0" unfolding e0_def f_def by simp
  have "x < 2 powi (f + 1) / 2 powi e0"
    unfolding x_def f_def
    by (rule divide_strict_right_mono[OF floor_log_ratio_bounds(2)[OF assms(1,2)] p])
  also have "\<dots> = 2 powi (f + 1 - e0)" by (simp add: power_int_diff)
  also have "\<dots> \<le> 2 powi 53" using e0 by (intro power_int_increasing) simp_all
  finally have xhi: "x < of_int (2 ^ 53)" by simp
  from err have "(of_int r :: rat) \<le> x + 1 / 2" by linarith
  from int_le_from_rat[OF this xhi] show "r \<le> 2 ^ 53" .
  show "2 ^ 52 \<le> r" if "- 1074 < e0"
  proof -
    from that have eq: "e0 = f - 52" unfolding e0_def f_def by simp
    have "(2::rat) powi 52 = 2 powi (f - e0)" using eq by simp
    also have "\<dots> = 2 powi f / 2 powi e0" by (simp add: power_int_diff)
    also have "\<dots> \<le> x"
      unfolding x_def f_def
      by (rule divide_right_mono[OF floor_log_ratio_bounds(1)[OF assms(1,2)] less_imp_le[OF p]])
    finally have xlo: "of_int (2 ^ 52) \<le> x" by simp
    from err have "x - 1 / 2 \<le> (of_int r :: rat)" by linarith
    from int_ge_from_rat[OF this xlo] show ?thesis .
  qed
qed

lemma fl_round_canonical:
  assumes "0 < a" "0 < b" "fl_round s a b = Finite s' m e"
  shows "s' = s \<and> 0 \<le> m \<and> m < 2 ^ 53 \<and> - 1074 \<le> e \<and> e \<le> 971 \<and> (e = - 1074 \<or> 2 ^ 52 \<le> m)"
proof -
  define e0 where "e0 = max (floor_log_ratio 2 a b - 52) (- 1074)"
  define r where "r = round_ratio (if 0 \<le> e0 then a else a * 2 ^ nat (- e0))
                            (if 0 \<le> e0 then b * 2 ^ nat e0 else b)"
  note core = fl_round_core[OF assms(1,2), folded e0_def, folded r_def]
  have e0: "- 1074 \<le> e0" by (simp add: e0_def)
  from assms(1) have "a \<noteq> 0" by simp
  from fl_round_unfold[where a = a and b = b and s = s, OF this, folded e0_def, folded r_def] assms(3)
  have res: "s' = s" "m = (if r = 2 ^ 53 then 2 ^ 52 else r)"
    "e = (if r = 2 ^ 53 then e0 + 1 else e0)" "e \<le> 971"
    by (auto split: if_splits)
  show ?thesis
  proof (cases "r = 2 ^ 53")
    case True
    with res e0 show ?thesis by simp
  next
    case False
    with core(3) have "r < 2 ^ 53" by simp
    moreover have "e0 = - 1074 \<or> 2 ^ 52 \<le> r" using core(4) e0 by linarith
    ultimately show ?thesis using res False core(2) e0 by simp
  qed
qed

lemma fl_round_half_ulp:
  assumes "0 < a" "0 < b" "fl_round s a b = Finite s' m e"
  shows "\<bar>(of_int m :: rat) * 2 powi e - of_int a / of_int b\<bar> \<le> 2 powi e / 2"
proof -
  define e0 where "e0 = max (floor_log_ratio 2 a b - 52) (- 1074)"
  define r where "r = round_ratio (if 0 \<le> e0 then a else a * 2 ^ nat (- e0))
                            (if 0 \<le> e0 then b * 2 ^ nat e0 else b)"
  note core = fl_round_core[OF assms(1,2), folded e0_def, folded r_def]
  from assms(1) have "a \<noteq> 0" by simp
  from fl_round_unfold[where a = a and b = b and s = s, OF this, folded e0_def, folded r_def] assms(3)
  have res: "m = (if r = 2 ^ 53 then 2 ^ 52 else r)" "e = (if r = 2 ^ 53 then e0 + 1 else e0)"
    by (auto split: if_splits)
  have v: "(of_int m :: rat) * 2 powi e = of_int r * 2 powi e0"
  proof (cases "r = 2 ^ 53")
    case True
    with res have "(of_int m :: rat) * 2 powi e = 2 ^ 52 * 2 powi (e0 + 1)" by simp
    also have "\<dots> = 2 ^ 53 * 2 powi e0" by (simp add: power_int_add)
    finally show ?thesis using True by simp
  next
    case False
    with res show ?thesis by simp
  qed
  have "(2::rat) powi e0 \<le> 2 powi e" using res by (intro power_int_increasing) auto
  with core(1) v show ?thesis by simp
qed

text \<open>
  The text of a float whose shortest decimals are two, equally near: the one with the even
  last digit, as \<open>repr\<close> has it.
\<close>

lemma float_repr_ties:
  "map_sum id float_repr (py_float ''1234567890123456.75'') = Inr ''1234567890123456.8''
   \<and> map_sum id float_repr (py_float ''9861049790756.6875'') = Inr ''9861049790756.688''"
proof (intro conjI)
  show "map_sum id float_repr (py_float ''1234567890123456.75'') = Inr ''1234567890123456.8''"
    by code_simp
  show "map_sum id float_repr (py_float ''9861049790756.6875'') = Inr ''9861049790756.688''"
    by code_simp
qed

section \<open>The no-load current\<close>

lemma py_float_error: "py_float t = Inl err \<Longrightarrow> err = ValueError"
  by (auto simp: py_float_def Let_def split: prod.splits if_splits option.splits)

lemma py_float_Nil: "py_float [] = Inl ValueError"
  by code_simp

lemma float_of_int_1000: "float_of_int 1000 = Finite False 8796093022208000 (- 43)"
  by code_simp

lemma fl_truediv_1000: "\<exists>y. fl_truediv x (float_of_int 1000) = Inr y"
  by (cases x) (simp_all add: fl_truediv_def float_of_int_1000)

lemma try_div_1000_None: "try_div_1000 num = None \<longleftrightarrow> (\<forall>x. py_float num \<noteq> Inr x)"
proof (cases "py_float num")
  case (Inl err)
  with py_float_error[OF Inl] show ?thesis by (simp add: try_div_1000_def)
next
  case (Inr x)
  with fl_truediv_1000[of x] show ?thesis by (auto simp: try_div_1000_def)
qed

lemma try_div_1000_Some:
  assumes "py_float num = Inr x"
  shows "\<exists>y. fl_truediv x (float_of_int 1000) = Inr y \<and> try_div_1000 num = Some (Inr (float_repr y))"
  using assms fl_truediv_1000[of x] by (auto simp: try_div_1000_def)

lemma try_div_1000_no_error: "try_div_1000 num \<noteq> Some (Inl err)"
proof (cases "py_float num")
  case (Inl e)
  with py_float_error[OF Inl] show ?thesis by (simp add: try_div_1000_def)
next
  case (Inr x)
  with fl_truediv_1000[of x] show ?thesis by (auto simp: try_div_1000_def)
qed

lemma no_load_step_unusable:
  "\<not> no_load_usable (k, v) \<Longrightarrow> get_no_load_current ((k, v) # rest) = get_no_load_current rest"
  using try_div_1000_None[of "clean_number v"] py_float_Nil
  by (auto simp: no_load_usable_def no_load_key_def has_ma_def split: option.splits if_splits)

lemma no_load_step_plain:
  "no_load_key k \<Longrightarrow> \<not> has_ma (k, v) \<Longrightarrow>
   get_no_load_current ((k, v) # rest) = Inr (clean_number v)"
  by (auto simp: no_load_key_def has_ma_def)

lemma no_load_step_milli:
  assumes "no_load_key k" "has_ma (k, v)" "py_float (clean_number v) = Inr x"
  shows "\<exists>y. fl_truediv x (float_of_int 1000) = Inr y
           \<and> get_no_load_current ((k, v) # rest) = Inr (float_repr y)"
proof -
  from assms(3) py_float_Nil have ne: "clean_number v \<noteq> []" by auto
  from try_div_1000_Some[OF assms(3)] obtain y where
    y: "fl_truediv x (float_of_int 1000) = Inr y" "try_div_1000 (clean_number v) = Some (Inr (float_repr y))"
    by blast
  with assms(1,2) ne have "get_no_load_current ((k, v) # rest) = Inr (float_repr y)"
    by (auto simp: no_load_key_def has_ma_def)
  with y(1) show ?thesis by blast
qed

lemma no_load_none: "find no_load_usable m = None \<Longrightarrow> get_no_load_current m = Inr []"
proof (induction m)
  case Nil
  show ?case by simp
next
  case (Cons a m)
  obtain k v where a: "a = (k, v)" by (cases a)
  from Cons.prems a have "\<not> no_load_usable (k, v)" "find no_load_usable m = None"
    by (auto split: if_splits)
  with Cons.IH a no_load_step_unusable[of k v m] show ?case by simp
qed

lemma no_load_plain:
  "find no_load_usable m = Some (k, v) \<Longrightarrow> \<not> has_ma (k, v) \<Longrightarrow>
   get_no_load_current m = Inr (clean_number v)"
proof (induction m)
  case Nil
  then show ?case by simp
next
  case (Cons a m)
  obtain k' v' where a: "a = (k', v')" by (cases a)
  show ?case
  proof (cases "no_load_usable (k', v')")
    case True
    with Cons.prems a have "k' = k" "v' = v" by auto
    with True Cons.prems(2) a show ?thesis
      using no_load_step_plain[of k v m] by (simp add: no_load_usable_def)
  next
    case False
    with Cons a no_load_step_unusable[of k' v' m] show ?thesis by simp
  qed
qed

lemma no_load_milli:
  "find no_load_usable m = Some (k, v) \<Longrightarrow> has_ma (k, v) \<Longrightarrow>
   py_float (clean_number v) = Inr x \<Longrightarrow>
   \<exists>y. fl_truediv x (float_of_int 1000) = Inr y \<and> get_no_load_current m = Inr (float_repr y)"
proof (induction m)
  case Nil
  then show ?case by simp
next
  case (Cons a m)
  obtain k' v' where a: "a = (k', v')" by (cases a)
  show ?case
  proof (cases "no_load_usable (k', v')")
    case True
    with Cons.prems a have "k' = k" "v' = v" by auto
    with True Cons.prems a show ?thesis
      using no_load_step_milli[of k v x m] by (simp add: no_load_usable_def)
  next
    case False
    with Cons a no_load_step_unusable[of k' v' m] show ?thesis by simp
  qed
qed

text \<open>
  The branches of get_no_load_current: it returns at the first no-load-current entry that
  has no \<open>ma\<close> in key and value or whose cleaned value reads as a number. When that entry
  has \<open>ma\<close> in its key or its value, the result is the number divided by 1000 (a float
  division) as text; otherwise it is the cleaned value; with no such entry it is the empty
  string.
\<close>

lemma get_no_load_current_branches:
  "(find no_load_usable m = None \<longrightarrow> get_no_load_current m = Inr [])
   \<and> (find no_load_usable m = Some (k, v) \<longrightarrow> \<not> has_ma (k, v) \<longrightarrow>
        get_no_load_current m = Inr (clean_number v))
   \<and> (find no_load_usable m = Some (k, v) \<longrightarrow> has_ma (k, v) \<longrightarrow>
        py_float (clean_number v) = Inr x \<longrightarrow>
        (\<exists>y. fl_truediv x (float_of_int 1000) = Inr y \<and> get_no_load_current m = Inr (float_repr y)))
   \<and> get_no_load_current [(''no load current'', ''150mA'')] = Inr ''0.15''"
proof -
  have "get_no_load_current [(''no load current'', ''150mA'')] = Inr ''0.15''" by code_simp
  then show ?thesis
    using no_load_none[of m] no_load_plain[of m k v] no_load_milli[of m k v x] by blast
qed

lemma no_load_usable_150: "no_load_usable (''no load current'', ''150mA'')"
proof -
  have "py_float (clean_number ''150mA'') = Inr (Finite False 5277655813324800 (- 45))" by code_simp
  moreover have "no_load_key ''no load current''" by code_simp
  ultimately show ?thesis by (auto simp: no_load_usable_def)
qed

lemma get_no_load_current_examples:
  "get_no_load_current [(''no load current'', ''0.2 A'')] = Inr ''0.2''
   \<and> get_no_load_current [(''load'', ''5''), (''no load current'', ''150mA'')] = Inr ''0.15''
   \<and> get_no_load_current [(''rated current'', ''5'')] = Inr []"
proof -
  have k1: "no_load_key ''no load current''" by code_simp
  have m1: "\<not> has_ma (''no load current'', ''0.2 A'')" by code_simp
  have u1: "no_load_usable (''no load current'', ''0.2 A'')"
    using k1 m1 by (simp add: no_load_usable_def)
  have c1: "clean_number ''0.2 A'' = ''0.2''" by code_simp
  have f1: "find no_load_usable [(''no load current'', ''0.2 A'')] = Some (''no load current'', ''0.2 A'')"
    using u1 by simp
  have k2: "\<not> no_load_key ''load''" by code_simp
  have n2: "\<not> no_load_usable (''load'', ''5'')" using k2 by (simp add: no_load_usable_def)
  have f2: "find no_load_usable [(''load'', ''5''), (''no load current'', ''150mA'')]
              = Some (''no load current'', ''150mA'')"
    using n2 no_load_usable_150 by simp
  have m2: "has_ma (''no load current'', ''150mA'')" by code_simp
  have p2: "py_float (clean_number ''150mA'') = Inr (Finite False 5277655813324800 (- 45))" by code_simp
  have d2: "fl_truediv (Finite False 5277655813324800 (- 45)) (float_of_int 1000)
              = Inr (Finite False 5404319552844595 (- 55))" by code_simp
  have r2: "float_repr (Finite False 5404319552844595 (- 55)) = ''0.15''" by code_simp
  have k3: "\<not> no_load_key ''rated current''" by code_simp
  have n3: "\<not> no_load_usable (''rated current'', ''5'')" using k3 by (simp add: no_load_usable_def)
  have f3: "find no_load_usable [(''rated current'', ''5'')] = None" using n3 by simp
  from get_no_load_current_branches[of "[(''no load current'', ''0.2 A'')]" "''no load current''" "''0.2 A''"]
    f1 m1 c1
  have "get_no_load_current [(''no load current'', ''0.2 A'')] = Inr ''0.2''" by simp
  moreover from get_no_load_current_branches[of "[(''load'', ''5''), (''no load current'', ''150mA'')]"
      "''no load current''" "''150mA''" "Finite False 5277655813324800 (- 45)"] f2 m2 p2 d2 r2
  have "get_no_load_current [(''load'', ''5''), (''no load current'', ''150mA'')] = Inr ''0.15''" by simp
  moreover from get_no_load_current_branches[of "[(''rated current'', ''5'')]"] f3
  have "get_no_load_current [(''rated current'', ''5'')] = Inr []" by simp
  ultimately show ?thesis by simp
qed

text \<open>
  Claim C5 at two failing inputs: the no-load-current resolver is to divide by 1000 when
  the matched key or value indicates milliamps and otherwise to report the cleaned value
  unchanged. The code takes the letters \<open>ma\<close> anywhere in the key or the value for
  milliamps. A value in amps written \<open>Max 2A\<close>, whose cleaned value is \<open>2\<close>, and a value
  \<open>2\<close> under the key \<open>no load current (max)\<close> are divided by 1000: the field reads
  \<open>0.002\<close>. On \<open>150mA\<close> the field is \<open>0.15\<close>, as the claim has it.
\<close>

theorem get_no_load_current_max_amps:
  "get_no_load_current [(''no load current'', ''Max 2A'')] = Inr ''0.002''
   \<and> clean_number ''Max 2A'' = ''2''
   \<and> get_no_load_current [(''no load current (max)'', ''2'')] = Inr ''0.002''
   \<and> get_no_load_current [(''no load current'', ''150mA'')] = Inr ''0.15''"
proof (intro conjI)
  show "get_no_load_current [(''no load current'', ''Max 2A'')] = Inr ''0.002''" by code_simp
  show "clean_number ''Max 2A'' = ''2''" by code_simp
  show "get_no_load_current [(''no load current (max)'', ''2'')] = Inr ''0.002''" by code_simp
  show "get_no_load_current [(''no load current'', ''150mA'')] = Inr ''0.15''" by code_simp
qed

section \<open>The efficiency field\<close>

lemma fl_wf_simps: "fl_wf (Finite s m e) = (0 \<le> m)" "fl_wf (Infinity s)" "fl_wf NaN"
  by (simp_all add: fl_wf_def)

lemma round_ratio_nonneg: "0 \<le> a \<Longrightarrow> 0 < b \<Longrightarrow> 0 \<le> round_ratio a b"
  by (auto simp: round_ratio_def Let_def pos_imp_zdiv_nonneg_iff)

lemma fl_round_wf: "0 \<le> a \<Longrightarrow> 0 < b \<Longrightarrow> fl_wf (fl_round s a b)"
  by (auto simp: fl_round_def fl_wf_simps Let_def round_ratio_nonneg)

lemma digits_fold_nonneg:
  "0 \<le> acc \<Longrightarrow> list_all is_digit s \<Longrightarrow>
   0 \<le> foldl (\<lambda>acc c. acc * 10 + (of_char c - 48)) (acc :: int) s"
proof (induction s arbitrary: acc)
  case Nil
  then show ?case by simp
next
  case (Cons c s)
  from Cons.prems have "0 \<le> acc * 10 + (of_char c - 48)"
    by (simp add: is_digit_def Let_def)
  with Cons show ?case by simp
qed

lemma digits_val_nonneg: "0 \<le> digits_val s"
  unfolding digits_val_def by (rule digits_fold_nonneg) (simp_all add: list_all_iff)

lemma parse_number_nonneg:
  assumes "parse_number t = Some (n, k)"
  shows "0 \<le> n"
proof -
  from assms obtain u where "n = digits_val u"
    unfolding parse_number_def Let_def by (auto split: if_splits option.splits prod.splits)
  then show ?thesis by (simp add: digits_val_nonneg)
qed

lemma py_float_wf:
  assumes "py_float t = Inr x"
  shows "fl_wf x"
proof -
  obtain neg body where sb: "split_sign (strip t) = (neg, body)" by (cases "split_sign (strip t)")
  show ?thesis
  proof (cases "parse_number body")
    case None
    with assms sb show ?thesis
      by (auto simp: py_float_def fl_wf_simps split: if_splits)
  next
    case (Some nk)
    obtain n k where nk: "nk = (n, k)" by (cases nk)
    from parse_number_nonneg Some nk have n: "0 \<le> n" by blast
    then have "fl_wf (fl_round neg (n * 10 ^ nat k) 1)" "fl_wf (fl_round neg n (10 ^ nat (- k)))"
      by (simp_all add: fl_round_wf)
    with assms sb Some nk show ?thesis
      by (auto simp: py_float_def fl_wf_simps split: if_splits)
  qed
qed

lemma float_of_int_100: "float_of_int 100 = Finite False 7036874417766400 (- 46)"
  by code_simp

lemma fl_mul_100_wf:
  assumes "fl_wf x"
  shows "fl_wf (fl_mul x (float_of_int 100))"
proof (cases x)
  case (Finite s m e)
  with assms have m: "0 \<le> m * 7036874417766400" by (simp add: fl_wf_simps)
  then have "0 \<le> m * 7036874417766400 * 2 ^ nat (e + - 46)" by simp
  with m Finite show ?thesis
    by (simp add: fl_mul_def float_of_int_100 fl_round_wf)
next
  case (Infinity s)
  then show ?thesis by (simp add: fl_mul_def float_of_int_100 fl_wf_simps)
next
  case NaN
  then show ?thesis by (simp add: fl_mul_def float_of_int_100 fl_wf_simps)
qed

lemma truncate_of_int: "truncate (of_int n) = n"
  by (simp add: truncate_def)

lemma truncate_ratio:
  assumes "0 \<le> m" "0 < d"
  shows "truncate ((of_int m :: rat) / of_int d) = m div d"
    and "truncate (- ((of_int m :: rat) / of_int d)) = - (m div d)"
proof -
  define q where "q = (of_int m :: rat) / of_int d"
  have fl: "\<lfloor>q\<rfloor> = m div d" unfolding q_def by (rule floor_divide_of_int_eq)
  have nn: "0 \<le> q" using assms by (simp add: q_def)
  from nn fl show "truncate ((of_int m :: rat) / of_int d) = m div d"
    unfolding q_def[symmetric] by (simp add: truncate_def not_less[symmetric])
  show "truncate (- ((of_int m :: rat) / of_int d)) = - (m div d)"
    unfolding q_def[symmetric]
  proof (cases "q = 0")
    case True
    with fl have "m div d = 0" by simp
    with True show "truncate (- q) = - (m div d)" by (simp add: truncate_def)
  next
    case False
    with nn have "- q < 0" by simp
    with fl show "truncate (- q) = - (m div d)" by (simp add: truncate_def)
  qed
qed

lemma py_int_truncate:
  assumes "0 \<le> m"
  shows "py_int (Finite s m e) = Inr (truncate (fl_value (Finite s m e)))"
proof (cases "0 \<le> e")
  case True
  then have v: "fl_value (Finite s m e) = of_int (signed s (m * 2 ^ nat e))"
    by (simp add: fl_value_def signed_def power_int_def)
  with True show ?thesis by (simp add: py_int_def truncate_of_int)
next
  case False
  let ?d = "(2::int) ^ nat (- e)"
  have d: "0 < ?d" by simp
  from False have p: "(2::rat) powi e = 1 / of_int ?d"
    by (simp add: power_int_def field_simps)
  show ?thesis
  proof (cases s)
    case True
    with p have "fl_value (Finite s m e) = - ((of_int m :: rat) / of_int ?d)"
      by (simp add: fl_value_def)
    with truncate_ratio(2)[OF assms d] True False show ?thesis
      by (simp add: py_int_def signed_def)
  next
    case False
    with p have "fl_value (Finite s m e) = (of_int m :: rat) / of_int ?d"
      by (simp add: fl_value_def)
    with truncate_ratio(1)[OF assms d] False \<open>\<not> 0 \<le> e\<close> show ?thesis
      by (simp add: py_int_def signed_def)
  qed
qed

lemma get_efficiency_empty_val:
  "get_spec m [''efficiency''] True False = [] \<Longrightarrow> get_efficiency m = Inr []"
  unfolding get_efficiency_def Let_def by simp

lemma get_efficiency_unparsed:
  assumes "py_float (get_spec m [''efficiency''] True False) = Inl err"
  shows "get_efficiency m = Inr (get_spec m [''efficiency''] True False)"
proof -
  from py_float_error[OF assms] assms
  have "py_float (get_spec m [''efficiency''] True False) = Inl ValueError" by simp
  then show ?thesis unfolding get_efficiency_def Let_def by simp
qed

lemma val_nonempty: "py_float v = Inr x \<Longrightarrow> v \<noteq> []"
  using py_float_Nil by auto

lemma get_efficiency_percent:
  assumes "py_float (get_spec m [''efficiency''] True False) = Inr x"
    and "\<not> fl_less x (float_of_int 1)"
  shows "get_efficiency m = Inr (get_spec m [''efficiency''] True False)"
  using assms val_nonempty[OF assms(1)] unfolding get_efficiency_def Let_def by simp

lemma get_efficiency_ratio:
  assumes "py_float (get_spec m [''efficiency''] True False) = Inr x"
    and "fl_less x (float_of_int 1)"
    and "fl_mul x (float_of_int 100) = Finite s' m' e'"
  shows "get_efficiency m = Inr (str_int (truncate (fl_value (Finite s' m' e'))))"
proof -
  from fl_mul_100_wf[OF py_float_wf[OF assms(1)]] assms(3) have "0 \<le> m'"
    by (simp add: fl_wf_simps)
  from py_int_truncate[OF this]
  have "py_int (fl_mul x (float_of_int 100)) = Inr (truncate (fl_value (Finite s' m' e')))"
    using assms(3) by simp
  with assms(1,2) val_nonempty[OF assms(1)] show ?thesis
    unfolding get_efficiency_def Let_def by simp
qed

text \<open>
  Claim C3, as the code has it: the efficiency resolver takes the value resolved by the
  alias \<open>efficiency\<close>, cleaned. An empty value gives the empty string; a value that
  \<open>float\<close> does not read, or reads as a number not less than 1, is reported unchanged; a
  value read as a number less than 1 is multiplied by 100 in floating point and the
  product, when finite, is truncated towards zero to an integer (\<open>int()\<close>): it is not
  rounded to the nearest integer. \<open>0.85\<close> resolves to \<open>85\<close> and \<open>85\<close> to \<open>85\<close>.
\<close>

theorem get_efficiency_truncates:
  "(get_spec m [''efficiency''] True False = [] \<longrightarrow> get_efficiency m = Inr [])
   \<and> (py_float (get_spec m [''efficiency''] True False) = Inl err \<longrightarrow>
        get_efficiency m = Inr (get_spec m [''efficiency''] True False))
   \<and> (py_float (get_spec m [''efficiency''] True False) = Inr x \<longrightarrow>
        \<not> fl_less x (float_of_int 1) \<longrightarrow>
        get_efficiency m = Inr (get_spec m [''efficiency''] True False))
   \<and> (py_float (get_spec m [''efficiency''] True False) = Inr x \<longrightarrow>
        fl_less x (float_of_int 1) \<longrightarrow>
        fl_mul x (float_of_int 100) = Finite s' m' e' \<longrightarrow>
        get_efficiency m = Inr (str_int (truncate (fl_value (Finite s' m' e')))))
   \<and> get_efficiency [(''efficiency'', ''0.85'')] = Inr ''85''
   \<and> get_efficiency [(''efficiency'', ''85'')] = Inr ''85''"
proof (intro conjI impI)
  show "get_efficiency [(''efficiency'', ''0.85'')] = Inr ''85''" by code_simp
  show "get_efficiency [(''efficiency'', ''85'')] = Inr ''85''" by code_simp
qed (erule get_efficiency_empty_val get_efficiency_unparsed get_efficiency_percent
       get_efficiency_ratio, assumption?, assumption?)+

text \<open>
  On \<open>0.857\<close> the product is 85.7: the code reports \<open>85\<close>, the nearest integer, the spec's
  wording, is 86.
\<close>

theorem get_efficiency_not_rounded:
  "get_efficiency [(''efficiency'', ''0.857'')] = Inr ''85''
   \<and> spec_efficiency ''0.857'' = ''86''"
proof (intro conjI)
  show "get_efficiency [(''efficiency'', ''0.857'')] = Inr ''85''" by code_simp
  show "spec_efficiency ''0.857'' = ''86''" by code_simp
qed

theorem get_efficiency_truncates_witness:
  "get_efficiency [] = Inr []
   \<and> get_efficiency [(''efficiency'', ''n/a'')] = Inr ''n/a''
   \<and> get_efficiency [(''efficiency'', ''85 %'')] = Inr ''85''
   \<and> get_efficiency [(''efficiency'', ''0.29'')] = Inr ''28''"
proof (intro conjI)
  have v0: "get_spec [] [''efficiency''] True False = []" by simp
  from get_efficiency_truncates[of "[]"] v0 show "get_efficiency [] = Inr []" by blast
  have v1: "get_spec [(''efficiency'', ''n/a'')] [''efficiency''] True False = ''n/a''" by code_simp
  have p1: "py_float ''n/a'' = Inl ValueError" by code_simp
  from get_efficiency_truncates[of "[(''efficiency'', ''n/a'')]" ValueError] v1 p1
  show "get_efficiency [(''efficiency'', ''n/a'')] = Inr ''n/a''" by simp
  have v2: "get_spec [(''efficiency'', ''85 %'')] [''efficiency''] True False = ''85''" by code_simp
  have p2: "py_float ''85'' = Inr (Finite False 5981343255101440 (- 46))" by code_simp
  have l2: "\<not> fl_less (Finite False 5981343255101440 (- 46)) (float_of_int 1)" by code_simp
  from get_efficiency_truncates[of "[(''efficiency'', ''85 %'')]" _ "Finite False 5981343255101440 (- 46)"]
    v2 p2 l2
  show "get_efficiency [(''efficiency'', ''85 %'')] = Inr ''85''" by simp
  have v3: "get_spec [(''efficiency'', ''0.29'')] [''efficiency''] True False = ''0.29''" by code_simp
  have p3: "py_float ''0.29'' = Inr (Finite False 5224175567749775 (- 54))" by code_simp
  have l3: "fl_less (Finite False 5224175567749775 (- 54)) (float_of_int 1)" by code_simp
  have m3: "fl_mul (Finite False 5224175567749775 (- 54)) (float_of_int 100)
            = Finite False 8162774324609023 (- 48)" by code_simp
  have i3: "py_int (Finite False 8162774324609023 (- 48)) = Inr 28" by code_simp
  have t3: "truncate (fl_value (Finite False 8162774324609023 (- 48))) = 28"
    using py_int_truncate[of 8162774324609023 False "- 48"] i3 by simp
  have s3: "str_int 28 = ''28''" by code_simp
  from get_efficiency_truncates[of "[(''efficiency'', ''0.29'')]" _
      "Finite False 5224175567749775 (- 54)" False 8162774324609023 "- 48"] v3 p3 l3 m3 t3 s3
  show "get_efficiency [(''efficiency'', ''0.29'')] = Inr ''28''" by simp
qed

section \<open>The mass field\<close>

text \<open>
  Claim C4 at three inputs: get_weight of scrape_product.py converts grams only when the
  key is marked \<open>(g)\<close>. A mass stated as \<open>1500 g\<close> under the key \<open>weight\<close> matches neither
  the kilogram test nor the gram test, the loop ends and the exact fallback aliases find
  nothing: the field is empty. Under a key marked \<open>(g)\<close> the value \<open>1500\<close> resolves to
  \<open>1.5\<close>, as does \<open>1.5 kg\<close> under the key \<open>weight\<close>.
\<close>

theorem get_weight_grams_in_value:
  "get_weight [(''weight'', ''1500 g'')] = Inr []
   \<and> get_weight [(''weight (g)'', ''1500'')] = Inr ''1.5''
   \<and> get_weight [(''weight'', ''1.5 kg'')] = Inr ''1.5''"
proof -
  have "get_weight [(''weight'', ''1500 g'')] = Inr []" by code_simp
  moreover have "get_weight [(''weight (g)'', ''1500'')] = Inr ''1.5''" by code_simp
  moreover have "get_weight [(''weight'', ''1.5 kg'')] = Inr ''1.5''" by code_simp
  ultimately show ?thesis by blast
qed

section \<open>Exceptions that leave the motor engine\<close>

text \<open>
  The unit-aware resolvers catch ValueError only. The no-load-current and the mass
  resolver never raise: \<open>float\<close> raises nothing else and the divisor is 1000. The
  efficiency resolver can: \<open>int()\<close> of an infinity is an OverflowError, and \<open>-inf\<close> is a
  text that the cleaner passes through, that \<open>float\<close> reads and that is less than 1.
\<close>

lemma get_no_load_current_returns: "\<exists>r. get_no_load_current m = Inr r"
proof (induction m)
  case Nil
  show ?case by simp
next
  case (Cons a m)
  obtain k v where a: "a = (k, v)" by (cases a)
  show ?case
  proof (cases "try_div_1000 (clean_number v)")
    case None
    with Cons a show ?thesis by auto
  next
    case (Some r)
    with try_div_1000_no_error[of "clean_number v"] obtain t where "r = Inr t" by (cases r) auto
    with Some Cons a show ?thesis by auto
  qed
qed

lemma get_weight_loop_returns: "get_weight_loop m \<noteq> Some (Inl err)"
proof (induction m)
  case Nil
  show ?case by simp
next
  case (Cons a m)
  obtain k v where a: "a = (k, v)" by (cases a)
  with Cons try_div_1000_no_error[of "clean_number v" err] show ?case
    by (auto split: option.splits)
qed

lemma get_weight_returns: "\<exists>r. get_weight m = Inr r"
proof (cases "get_weight_loop m")
  case None
  then show ?thesis by (simp add: get_weight_def)
next
  case (Some r)
  with get_weight_loop_returns[of m] obtain t where "r = Inr t" by (cases r) auto
  with Some show ?thesis by (simp add: get_weight_def)
qed

lemma py_int_error: "py_int x = Inl err \<Longrightarrow> err = OverflowError \<or> err = ValueError"
  by (cases x) (auto simp: py_int_def)

lemma get_efficiency_error:
  assumes "get_efficiency m = Inl err"
  shows "err = OverflowError"
proof -
  define val where "val = get_spec m [''efficiency''] True False"
  show ?thesis
  proof (cases "py_float val")
    case (Inl e)
    with py_float_error[OF Inl] assms show ?thesis
      unfolding get_efficiency_def val_def[symmetric] Let_def by (simp split: if_splits)
  next
    case (Inr x)
    show ?thesis
    proof (cases "py_int (fl_mul x (float_of_int 100))")
      case (Inl e)
      with py_int_error[OF Inl] Inr assms show ?thesis
        unfolding get_efficiency_def val_def[symmetric] Let_def by (auto split: if_splits)
    next
      case (Inr n)
      with \<open>py_float val = Inr x\<close> assms show ?thesis
        unfolding get_efficiency_def val_def[symmetric] Let_def by (simp split: if_splits)
    qed
  qed
qed

lemma scrape_product_returns_or_overflows:
  "(\<exists>r. scrape_product url fetched = Inr r) \<or> scrape_product url fetched = Inl OverflowError"
proof (cases fetched)
  case None
  then show ?thesis by (simp add: scrape_product_def)
next
  case (Some p)
  let ?m = "merge_specs (regex_specs p) (general_info p) (spec_table p)"
  obtain n where n: "get_no_load_current ?m = Inr n" using get_no_load_current_returns by blast
  obtain w where w: "get_weight ?m = Inr w" using get_weight_returns by blast
  show ?thesis
  proof (cases "get_efficiency ?m")
    case (Inl err)
    with get_efficiency_error[OF Inl] Some n show ?thesis by (simp add: scrape_product_def)
  next
    case (Inr e)
    with Some n w show ?thesis by (simp add: scrape_product_def)
  qed
qed

lemma get_efficiency_overflow:
  "get_efficiency [(''efficiency'', ''-inf'')] = Inl OverflowError"
  by code_simp

lemma scrape_product_overflow:
  "scrape_product ''u'' (Some \<lparr>product_name = ''M'', stock_status = ''In Stock'', price = ''10'',
       general_info = [], spec_table = [(''efficiency'', ''-inf'')], regex_specs = []\<rparr>)
     = Inl OverflowError"
proof -
  have m: "merge_specs [] [] [(''efficiency'', ''-inf'')] = [(''efficiency'', ''-inf'')]"
    by (simp add: merge_specs_def)
  have n: "get_no_load_current [(''efficiency'', ''-inf'')] = Inr []" by code_simp
  show ?thesis
    by (simp add: scrape_product_def m n get_efficiency_overflow del: get_no_load_current.simps)
qed

end
